theory Spec2Isabelle
  imports Main
begin

section \<open>Python values and failures\<close>

text \<open>
  The exceptions that \<open>to_standard_time\<close> and \<open>ttml_to_lrc\<close> of \<open>src/apple.py\<close> can
  leave through: \<open>int()\<close> on a string that is not a number raises \<open>ValueError\<close>, reading
  a local variable that no branch assigned raises \<open>UnboundLocalError\<close>, \<open>re.sub\<close> on
  \<open>None\<close> raises \<open>TypeError\<close>, indexing a list out of range raises \<open>IndexError\<close>, and
  \<open>ET.fromstring\<close> on text that is not well-formed raises \<open>ParseError\<close>.
  A call that raises is \<open>Inl\<close> of the exception, a call that returns is \<open>Inr\<close> of the value.
\<close>

datatype py_error = ValueError | UnboundLocalError | TypeError | IndexError | ParseError

definition bind_err :: "py_error + 'a \<Rightarrow> ('a \<Rightarrow> py_error + 'b) \<Rightarrow> py_error + 'b" where
  "bind_err r f = (case r of Inl e \<Rightarrow> Inl e | Inr v \<Rightarrow> f v)"

definition py_index :: "'a list \<Rightarrow> nat \<Rightarrow> py_error + 'a" where
  "py_index xs i = (if i < length xs then Inr (xs ! i) else Inl IndexError)"

section \<open>Strings\<close>

text \<open>
  Python strings are modelled as \<open>string\<close>; a \<open>char\<close> stands for a code point below 256.
\<close>

definition is_digit :: "char \<Rightarrow> bool" where
  "is_digit c = (c \<in> set ''0123456789'')"

definition digit_val :: "char \<Rightarrow> int" where
  "digit_val c = int (of_char c) - 48"

definition digit_char :: "nat \<Rightarrow> char" where
  "digit_char d = ''0123456789'' ! d"

text \<open>\<open>str.split(sep)\<close> for a one-character separator: always at least one field.\<close>

fun py_split :: "char \<Rightarrow> string \<Rightarrow> string list" where
  "py_split sep [] = [[]]"
| "py_split sep (c # cs) =
     (if c = sep then [] # py_split sep cs
      else (case py_split sep cs of
              [] \<Rightarrow> [[c]]
            | f # fs \<Rightarrow> (c # f) # fs))"

text \<open>
  \<open>int(s)\<close>. Every string that reaches it in \<open>to_standard_time\<close> consists of the
  characters \<open>0-9\<close> and \<open>.\<close> only (the rest was removed by \<open>re.sub\<close>, the colons by
  \<open>split\<close>); on such a string \<open>int\<close> returns the decimal value when the string is a
  non-empty run of digits and raises \<open>ValueError\<close> otherwise. Python integers are
  unbounded; the limit that an interpreter may put on the number of digits of a
  conversion (\<open>sys.set_int_max_str_digits\<close>) is a setting of the interpreter and is not
  modelled.
\<close>

definition decimal_value :: "string \<Rightarrow> int" where
  "decimal_value s = foldl (\<lambda>acc c. 10 * acc + digit_val c) 0 s"

definition py_int :: "string \<Rightarrow> py_error + int" where
  "py_int s = (if s \<noteq> [] \<and> list_all is_digit s then Inr (decimal_value s) else Inl ValueError)"

text \<open>\<open>str(n)\<close> for a natural number, and the format specification \<open>{:0wd}\<close>.\<close>

fun decimal_digits :: "nat \<Rightarrow> string" where
  "decimal_digits n =
     (if n < 10 then [digit_char n] else decimal_digits (n div 10) @ [digit_char (n mod 10)])"

declare decimal_digits.simps [simp del]

definition zero_pad :: "nat \<Rightarrow> string \<Rightarrow> string" where
  "zero_pad w s = replicate (w - length s) (CHR ''0'') @ s"

definition format_0d :: "nat \<Rightarrow> int \<Rightarrow> string" where
  "format_0d w i =
     (if i < 0 then CHR ''-'' # zero_pad (w - 1) (decimal_digits (nat (- i)))
      else zero_pad w (decimal_digits (nat i)))"

section \<open>\<open>to_standard_time\<close>\<close>

text \<open>\<open>re.sub(r'[^0-9.:]', '', time)\<close>\<close>

definition re_sub_time :: "string \<Rightarrow> string" where
  "re_sub_time time = filter (\<lambda>c. is_digit c \<or> c = CHR ''.'' \<or> c = CHR '':'') time"

definition parse_milliseconds :: "string \<Rightarrow> py_error + int" where
  "parse_milliseconds ms_str =
     (if ms_str = [] then Inr 0
      else if length ms_str = 1 then bind_err (py_int ms_str) (\<lambda>v. Inr (v * 100))
      else if length ms_str = 2 then bind_err (py_int ms_str) (\<lambda>v. Inr (v * 10))
      else py_int (take 3 ms_str))"

text \<open>
  The three statements that every branch of \<open>to_standard_time\<close> repeats on its last
  field: split at the dots, \<open>int\<close> of the first part, \<open>parse_milliseconds\<close> of the second
  part when there is one.
\<close>

definition seconds_of_field :: "string \<Rightarrow> py_error + (int \<times> int)" where
  "seconds_of_field field =
     (let seconds_parts = py_split (CHR ''.'') field in
      bind_err (py_index seconds_parts 0) (\<lambda>p0.
      bind_err (py_int p0) (\<lambda>seconds.
      bind_err (if length seconds_parts > 1
                then bind_err (py_index seconds_parts 1) parse_milliseconds
                else Inr 0) (\<lambda>milliseconds.
      Inr (seconds, milliseconds)))))"

text \<open>
  The \<open>if/elif/elif\<close> chain on \<open>len(times)\<close> (the list \<open>times\<close> of the source is
  \<open>tms\<close> here). It has no \<open>else\<close>: with any other number of fields no local variable
  is assigned and the next statement, \<open>minutes += hours * 60\<close>, raises
  \<open>UnboundLocalError\<close>.
\<close>

definition time_fields :: "string list \<Rightarrow> py_error + (int \<times> int \<times> int \<times> int)" where
  "time_fields tms =
     (if length tms = 1 then
        bind_err (py_index tms 0) (\<lambda>t0.
        bind_err (seconds_of_field t0) (\<lambda>(seconds, milliseconds).
        Inr (0, 0, seconds, milliseconds)))
      else if length tms = 2 then
        bind_err (py_index tms 0) (\<lambda>t0.
        bind_err (py_int t0) (\<lambda>minutes.
        bind_err (py_index tms 1) (\<lambda>t1.
        bind_err (seconds_of_field t1) (\<lambda>(seconds, milliseconds).
        Inr (0, minutes, seconds, milliseconds)))))
      else if length tms = 3 then
        bind_err (py_index tms 0) (\<lambda>t0.
        bind_err (py_int t0) (\<lambda>hours.
        bind_err (py_index tms 1) (\<lambda>t1.
        bind_err (py_int t1) (\<lambda>minutes.
        bind_err (py_index tms 2) (\<lambda>t2.
        bind_err (seconds_of_field t2) (\<lambda>(seconds, milliseconds).
        Inr (hours, minutes, seconds, milliseconds)))))))
      else Inl UnboundLocalError)"

definition carry_and_format :: "int \<times> int \<times> int \<times> int \<Rightarrow> string" where
  "carry_and_format t =
     (case t of (hours, minutes0, seconds0, milliseconds) \<Rightarrow>
        let minutes1 = minutes0 + hours * 60;
            minutes = (if seconds0 \<ge> 60 then minutes1 + seconds0 div 60 else minutes1);
            seconds = (if seconds0 \<ge> 60 then seconds0 mod 60 else seconds0)
        in format_0d 2 minutes @ '':'' @ format_0d 2 seconds @ ''.'' @ format_0d 3 milliseconds)"

definition to_standard_time :: "string \<Rightarrow> py_error + string" where
  "to_standard_time time =
     (let time' = re_sub_time time;
          tms = py_split (CHR '':'') time'
      in bind_err (time_fields tms) (\<lambda>t. Inr (carry_and_format t)))"

section \<open>Element trees\<close>

text \<open>
  An \<open>xml.etree.ElementTree.Element\<close>: its tag (a namespaced tag is written
  \<open>{uri}local\<close>), its attribute dictionary, its \<open>text\<close> and \<open>tail\<close> (each a string or
  \<open>None\<close>) and its child elements in document order.
\<close>

datatype element =
  Element (el_tag: string) (el_attrib: "(string \<times> string) list")
          (el_text: "string option") (el_tail: "string option") (el_children: "element list")

text \<open>\<open>elem.get(key)\<close>: the attribute's value, or \<open>None\<close>.\<close>

definition el_get :: "element \<Rightarrow> string \<Rightarrow> string option" where
  "el_get e key = map_of (el_attrib e) key"

text \<open>\<open>elem.iter()\<close>: the element itself, then its descendants, in document order.\<close>

fun el_iter :: "element \<Rightarrow> element list" where
  "el_iter (Element t a x y cs) = Element t a x y cs # concat (map el_iter cs)"

text \<open>
  \<open>elem.findall('.//' + tag)\<close>: the elements of \<open>elem.iter(tag)\<close> other than \<open>elem\<close>
  itself, that is, all proper descendants with that tag, in document order.
\<close>

definition findall_descendants :: "string \<Rightarrow> element \<Rightarrow> element list" where
  "findall_descendants tg e = filter (\<lambda>x. el_tag x = tg) (concat (map el_iter (el_children e)))"

text \<open>\<open>elem.findall(tag)\<close>: the direct children with that tag.\<close>

definition findall_children :: "string \<Rightarrow> element \<Rightarrow> element list" where
  "findall_children tg e = filter (\<lambda>x. el_tag x = tg) (el_children e)"

text \<open>\<open>elem.find(path)\<close> is the first element of \<open>elem.findall(path)\<close>, or \<open>None\<close>.\<close>

definition first_match :: "element list \<Rightarrow> element option" where
  "first_match xs = (case xs of [] \<Rightarrow> None | x # _ \<Rightarrow> Some x)"

text \<open>A string that is neither \<open>None\<close> nor empty counts as true.\<close>

definition truthy :: "string option \<Rightarrow> bool" where
  "truthy v = (case v of None \<Rightarrow> False | Some s \<Rightarrow> s \<noteq> [])"

text \<open>\<open>elem.itertext()\<close>: the text of the element, then for each child its own
  \<open>itertext()\<close> followed by its tail; empty and absent strings are skipped.\<close>

definition text_piece :: "string option \<Rightarrow> string list" where
  "text_piece v = (case v of None \<Rightarrow> [] | Some s \<Rightarrow> if s \<noteq> [] then [s] else [])"

fun itertext :: "element \<Rightarrow> string list" where
  "itertext (Element t a x y cs) =
     text_piece x @ concat (map (\<lambda>c. itertext c @ text_piece (el_tail c)) cs)"

text \<open>
  \<open>str.strip()\<close> removes leading and trailing whitespace; the whitespace code points below
  256 are 9 to 13, 28 to 32, 133 and 160.
\<close>

definition is_space :: "char \<Rightarrow> bool" where
  "is_space c = ((of_char c :: nat) \<in> {9, 10, 11, 12, 13, 28, 29, 30, 31, 32, 133, 160})"

definition py_strip :: "string \<Rightarrow> string" where
  "py_strip s = rev (dropWhile is_space (rev (dropWhile is_space s)))"

text \<open>\<open>sep.join(xs)\<close>\<close>

fun py_join :: "string \<Rightarrow> string list \<Rightarrow> string" where
  "py_join sep [] = []"
| "py_join sep [x] = x"
| "py_join sep (x # y # ys) = x @ sep @ py_join sep (y # ys)"

text \<open>\<open>needle in hay\<close> for strings.\<close>

fun starts_with :: "string \<Rightarrow> string \<Rightarrow> bool" where
  "starts_with [] hay = True"
| "starts_with (n # ns) [] = False"
| "starts_with (n # ns) (h # hs) = (n = h \<and> starts_with ns hs)"

fun py_in :: "string \<Rightarrow> string \<Rightarrow> bool" where
  "py_in needle [] = (needle = [])"
| "py_in needle (h # hs) = (starts_with needle (h # hs) \<or> py_in needle hs)"

text \<open>\<open>a or b\<close> for two lists, and for two values that are a string or \<open>None\<close>.\<close>

definition or_list :: "'a list \<Rightarrow> 'a list \<Rightarrow> 'a list" where
  "or_list a b = (if a \<noteq> [] then a else b)"

definition or_str :: "string option \<Rightarrow> string option \<Rightarrow> string option" where
  "or_str a b = (if truthy a then a else b)"

section \<open>\<open>ttml_to_lrc\<close>\<close>

definition tt_ns :: string where
  "tt_ns = ''http://www.w3.org/ns/ttml''"

definition itunes_ns :: string where
  "itunes_ns = ''http://music.apple.com/lyric-ttml-internal''"

text \<open>The tag that the path \<open>tt:local\<close> stands for under the \<open>namespaces\<close> dictionary.\<close>

definition tt :: "string \<Rightarrow> string" where
  "tt local = ''{'' @ tt_ns @ ''}'' @ local"

definition newline :: string where
  "newline = [CHR 0x0A]"

text \<open>The literal \<open>itunes:timing="None"\<close> that is looked for in the raw text.\<close>

definition timing_none :: string where
  "timing_none = ''itunes:timing='' @ [CHR 0x22] @ ''None'' @ [CHR 0x22]"

text \<open>
  \<open>to_standard_time\<close> as \<open>ttml_to_lrc\<close> calls it, on the value of \<open>line.get('begin')\<close>:
  on \<open>None\<close> the first statement, \<open>re.sub\<close>, raises \<open>TypeError\<close>.
\<close>

definition to_standard_time_of :: "string option \<Rightarrow> py_error + string" where
  "to_standard_time_of v = (case v of None \<Rightarrow> Inl TypeError | Some s \<Rightarrow> to_standard_time s)"

text \<open>
  The text of a line element, computed the same way in both modes: the stripped
  \<open>itertext()\<close> when a span is found, the stripped \<open>line.text\<close> otherwise.
\<close>

definition line_text :: "element \<Rightarrow> string" where
  "line_text line =
     (let spans = or_list (findall_descendants (tt ''span'') line) (findall_children ''span'' line)
      in if spans \<noteq> [] then py_strip (concat (itertext line))
         else if truthy (el_text line) then py_strip (case el_text line of Some t \<Rightarrow> t | None \<Rightarrow> [])
         else [])"

text \<open>The untimed branch: the two nested loops that fill \<open>text_lines\<close>.\<close>

definition untimed_line :: "string list \<Rightarrow> element \<Rightarrow> string list" where
  "untimed_line text_lines line =
     (let text = line_text line in if text \<noteq> [] then text_lines @ [text] else text_lines)"

definition untimed_div :: "string list \<Rightarrow> element \<Rightarrow> string list" where
  "untimed_div text_lines dv =
     (let lines = or_list (findall_descendants (tt ''p'') dv) (findall_children ''p'' dv)
      in foldl untimed_line text_lines lines)"

definition untimed_lrc :: "element \<Rightarrow> string" where
  "untimed_lrc body =
     (let divs = or_list (findall_descendants (tt ''div'') body) (findall_children ''div'' body);
          text_lines = foldl untimed_div [] divs
      in ''[!text]'' @ py_join newline text_lines)"

text \<open>
  The timed branch. The entries of \<open>lrc_body\<close> are dictionaries whose \<open>type\<close> is
  \<open>mark\<close> (with \<open>part\<close>) or \<open>line\<close> (with \<open>begin\<close>, \<open>end\<close> and \<open>text\<close>).
\<close>

datatype lrc_item =
  Mark (part: string)
| Line (line_begin: "string option") (line_end: "string option") (item_text: string)

definition timed_line :: "lrc_item list \<Rightarrow> element \<Rightarrow> lrc_item list" where
  "timed_line lrc_body line =
     lrc_body @ [Line (el_get line ''begin'') (el_get line ''end'') (line_text line)]"

definition timed_div :: "lrc_item list \<Rightarrow> element \<Rightarrow> lrc_item list" where
  "timed_div lrc_body dv =
     (let div_itunes_songPart =
            or_str (el_get dv (''{'' @ itunes_ns @ ''}songPart'')) (el_get dv ''itunes:songPart'');
          lines = or_list (findall_descendants (tt ''p'') dv) (findall_children ''p'' dv);
          lrc_body1 = (case div_itunes_songPart of
                         None \<Rightarrow> lrc_body
                       | Some label \<Rightarrow> if label \<noteq> [] then lrc_body @ [Mark label] else lrc_body)
      in foldl timed_line lrc_body1 lines)"

text \<open>The loop that renders \<open>lrc_body\<close> into \<open>lrc_text\<close>; the first exception ends it.\<close>

fun render_items :: "string \<Rightarrow> lrc_item list \<Rightarrow> py_error + string" where
  "render_items lrc_text [] = Inr lrc_text"
| "render_items lrc_text (Mark p # items) =
     render_items (lrc_text @ ''['' @ p @ '']'' @ newline) items"
| "render_items lrc_text (Line b e t # items) =
     bind_err (to_standard_time_of b)
       (\<lambda>ts. render_items (lrc_text @ ''['' @ ts @ '']'' @ t @ newline) items)"

definition timed_lrc :: "element \<Rightarrow> py_error + string" where
  "timed_lrc body =
     (let divs = or_list (findall_descendants (tt ''div'') body) (findall_children ''div'' body);
          lrc_body = foldl timed_div [] divs
      in render_items [] lrc_body)"

text \<open>
  \<open>ttml_to_lrc\<close>. The XML parser is not part of the repository: \<open>fromstring\<close> stands for
  \<open>ET.fromstring\<close>, giving the root element, or \<open>None\<close> where it raises \<open>ParseError\<close>.
  The message written to the logger when no body is found is not modelled.
\<close>

definition ttml_to_lrc :: "(string \<Rightarrow> element option) \<Rightarrow> string \<Rightarrow> py_error + string" where
  "ttml_to_lrc fromstring ttml =
     (if ttml = [] then Inr []
      else case fromstring ttml of
        None \<Rightarrow> Inl ParseError
      | Some root \<Rightarrow>
          (let after_body = (\<lambda>body.
                 if py_in timing_none ttml then Inr (untimed_lrc body) else timed_lrc body)
           in case first_match (findall_descendants (tt ''body'') root) of
                Some body \<Rightarrow> after_body body
              | None \<Rightarrow>
                  (case first_match (findall_children ''body'' root) of
                     None \<Rightarrow> Inr []
                   | Some body \<Rightarrow> after_body body)))"

section \<open>The canonical form of a time\<close>

text \<open>
  The reading of the fields in words: the fractional part of the seconds field counts
  hundreds of milliseconds when it has one digit, tens when it has two, and is cut after
  its third digit otherwise; the fields before the seconds field are the minutes, or the
  hours and the minutes.
\<close>

definition fraction_ms :: "string \<Rightarrow> int" where
  "fraction_ms fr =
     (if length fr = 0 then 0
      else if length fr = 1 then decimal_value fr * 100
      else if length fr = 2 then decimal_value fr * 10
      else decimal_value (take 3 fr))"

fun hours_minutes :: "string list \<Rightarrow> int \<times> int" where
  "hours_minutes [] = (0, 0)"
| "hours_minutes [mm] = (0, decimal_value mm)"
| "hours_minutes (hh # mm # rest) = (decimal_value hh, decimal_value mm)"

section \<open>Lookups with fallback\<close>

text \<open>
  The lookup pattern in words: try the namespace-qualified selector and, when it matches
  nothing, the unqualified selector. The body, the groups of a body, the lines of a group
  and the spans of a line are looked up this way.
\<close>

definition fallback ::
  "(element \<Rightarrow> element list) \<Rightarrow> (element \<Rightarrow> element list) \<Rightarrow> element \<Rightarrow> element list" where
  "fallback qualified unqualified e = (if qualified e = [] then unqualified e else qualified e)"

definition body_of :: "element \<Rightarrow> element option" where
  "body_of root =
     first_match (fallback (findall_descendants (tt ''body'')) (findall_children ''body'') root)"

definition groups_of :: "element \<Rightarrow> element list" where
  "groups_of body = fallback (findall_descendants (tt ''div'')) (findall_children ''div'') body"

definition lines_of :: "element \<Rightarrow> element list" where
  "lines_of dv = fallback (findall_descendants (tt ''p'')) (findall_children ''p'') dv"

definition spans_of :: "element \<Rightarrow> element list" where
  "spans_of line = fallback (findall_descendants (tt ''span'')) (findall_children ''span'') line"

text \<open>
  The section-part label of a group: the value of the qualified attribute when it is a
  non-empty string, otherwise the value of the alias when that is a non-empty string.
\<close>

definition section_label :: "element \<Rightarrow> string option" where
  "section_label dv =
     (if truthy (el_get dv (''{'' @ itunes_ns @ ''}songPart''))
      then el_get dv (''{'' @ itunes_ns @ ''}songPart'')
      else if truthy (el_get dv ''itunes:songPart'') then el_get dv ''itunes:songPart''
      else None)"

text \<open>The entries that one group contributes in timed mode.\<close>

definition group_items :: "element \<Rightarrow> lrc_item list" where
  "group_items dv =
     (case section_label dv of None \<Rightarrow> [] | Some label \<Rightarrow> [Mark label])
     @ map (\<lambda>line. Line (el_get line ''begin'') (el_get line ''end'') (line_text line)) (lines_of dv)"

definition is_line :: "lrc_item \<Rightarrow> bool" where
  "is_line item = (case item of Line b e t \<Rightarrow> True | Mark p \<Rightarrow> False)"

section \<open>Example documents\<close>

text \<open>
  A timed document with one group labelled \<open>Verse\<close> and one line, an untimed document with
  two lines, a timed document whose first line has only whitespace as text, a timed
  document whose line has no \<open>begin\<close>, and a document without a body; each with the tree
  that the parser builds for it.
\<close>

definition xmlns :: string where
  "xmlns = '' xmlns=\"http://www.w3.org/ns/ttml\" xmlns:itunes=\"http://music.apple.com/lyric-ttml-internal\"''"

definition verse_ttml :: string where
  "verse_ttml = ''<tt'' @ xmlns @ ''><body><div itunes:songPart=\"Verse\">''
     @ ''<p begin=\"0:01.0\" end=\"0:02.0\">hello</p></div></body></tt>''"

definition verse_body :: element where
  "verse_body = Element (tt ''body'') [] None None
     [Element (tt ''div'') [(''{'' @ itunes_ns @ ''}songPart'', ''Verse'')] None None
        [Element (tt ''p'') [(''begin'', ''0:01.0''), (''end'', ''0:02.0'')] (Some ''hello'') None []]]"

definition verse_doc :: element where
  "verse_doc = Element (tt ''tt'') [] None None [verse_body]"

definition untimed_ttml :: string where
  "untimed_ttml = ''<tt'' @ xmlns @ '' itunes:timing=\"None\"><body><div><p>a</p><p>b</p></div></body></tt>''"

definition untimed_body :: element where
  "untimed_body = Element (tt ''body'') [] None None
     [Element (tt ''div'') [] None None
        [Element (tt ''p'') [] (Some ''a'') None [], Element (tt ''p'') [] (Some ''b'') None []]]"

definition untimed_doc :: element where
  "untimed_doc = Element (tt ''tt'') [(''{'' @ itunes_ns @ ''}timing'', ''None'')] None None [untimed_body]"

definition blank_ttml :: string where
  "blank_ttml = ''<tt'' @ xmlns @ ''><body><div><p begin=\"0:01.0\"> </p><p begin=\"0:02.0\">hello</p></div></body></tt>''"

definition blank_body :: element where
  "blank_body = Element (tt ''body'') [] None None
     [Element (tt ''div'') [] None None
        [Element (tt ''p'') [(''begin'', ''0:01.0'')] (Some '' '') None [],
         Element (tt ''p'') [(''begin'', ''0:02.0'')] (Some ''hello'') None []]]"

definition blank_doc :: element where
  "blank_doc = Element (tt ''tt'') [] None None [blank_body]"

definition no_begin_ttml :: string where
  "no_begin_ttml = ''<tt'' @ xmlns @ ''><body><div><p end=\"0:02.0\">hello</p></div></body></tt>''"

definition no_begin_body :: element where
  "no_begin_body = Element (tt ''body'') [] None None
     [Element (tt ''div'') [] None None
        [Element (tt ''p'') [(''end'', ''0:02.0'')] (Some ''hello'') None []]]"

definition no_begin_doc :: element where
  "no_begin_doc = Element (tt ''tt'') [] None None [no_begin_body]"

definition no_body_ttml :: string where
  "no_body_ttml = ''<tt'' @ xmlns @ ''><head/></tt>''"

definition no_body_doc :: element where
  "no_body_doc = Element (tt ''tt'') [] None None [Element (tt ''head'') [] None None []]"

text \<open>A parser that knows these documents and rejects every other text.\<close>

definition example_parser :: "string \<Rightarrow> element option" where
  "example_parser =
     map_of [(verse_ttml, verse_doc), (untimed_ttml, untimed_doc), (blank_ttml, blank_doc),
             (no_begin_ttml, no_begin_doc), (no_body_ttml, no_body_doc)]"

section \<open>Facts about splitting and decimal numerals\<close>

lemma bind_err_simps [simp]:
  "bind_err (Inl e) f = Inl e" "bind_err (Inr v) f = f v"
  by (simp_all add: bind_err_def)

lemma py_split_not_Nil [simp]: "py_split sep s \<noteq> []"
  by (induction s) (auto split: list.splits)

lemma py_split_no_sep: "sep \<notin> set s \<Longrightarrow> py_split sep s = [s]"
  by (induction s) auto

lemma py_split_append: "sep \<notin> set a \<Longrightarrow> py_split sep (a @ sep # b) = a # py_split sep b"
  by (induction a) auto

lemma py_split_field_chars:
  "f \<in> set (py_split sep s) \<Longrightarrow> set f \<subseteq> set s - {sep}"
proof (induction s arbitrary: f)
  case Nil
  then show ?case by simp
next
  case (Cons c cs)
  show ?case
  proof (cases "c = sep")
    case True
    with Cons show ?thesis by auto
  next
    case False
    obtain g gs where g: "py_split sep cs = g # gs"
      by (cases "py_split sep cs") auto
    with False Cons.prems have "f = c # g \<or> f \<in> set gs" by auto
    then show ?thesis
    proof
      assume "f = c # g"
      moreover have "set g \<subseteq> set cs - {sep}" using Cons.IH [of g] g by simp
      ultimately show ?thesis using False by auto
    next
      assume "f \<in> set gs"
      then have "set f \<subseteq> set cs - {sep}" using Cons.IH [of f] g by simp
      then show ?thesis by auto
    qed
  qed
qed

lemma digit_cases: "d < 10 \<Longrightarrow> d \<in> {0,1,2,3,4,5,6,7,8,9::nat}"
  by auto

lemma is_digit_iff: "is_digit c \<longleftrightarrow> (\<exists>d<10. c = digit_char d)"
proof
  assume "is_digit c"
  then have "c = digit_char 0 \<or> c = digit_char 1 \<or> c = digit_char 2 \<or> c = digit_char 3
      \<or> c = digit_char 4 \<or> c = digit_char 5 \<or> c = digit_char 6 \<or> c = digit_char 7
      \<or> c = digit_char 8 \<or> c = digit_char 9"
    by (auto simp: is_digit_def digit_char_def)
  then show "\<exists>d<10. c = digit_char d"
  proof (elim disjE)
    show "c = digit_char 0 \<Longrightarrow> ?thesis" by (rule exI [of _ 0]) simp
    show "c = digit_char 1 \<Longrightarrow> ?thesis" by (rule exI [of _ 1]) simp
    show "c = digit_char 2 \<Longrightarrow> ?thesis" by (rule exI [of _ 2]) simp
    show "c = digit_char 3 \<Longrightarrow> ?thesis" by (rule exI [of _ 3]) simp
    show "c = digit_char 4 \<Longrightarrow> ?thesis" by (rule exI [of _ 4]) simp
    show "c = digit_char 5 \<Longrightarrow> ?thesis" by (rule exI [of _ 5]) simp
    show "c = digit_char 6 \<Longrightarrow> ?thesis" by (rule exI [of _ 6]) simp
    show "c = digit_char 7 \<Longrightarrow> ?thesis" by (rule exI [of _ 7]) simp
    show "c = digit_char 8 \<Longrightarrow> ?thesis" by (rule exI [of _ 8]) simp
    show "c = digit_char 9 \<Longrightarrow> ?thesis" by (rule exI [of _ 9]) simp
  qed
next
  assume "\<exists>d<10. c = digit_char d"
  then obtain d where "d < 10" "c = digit_char d" by blast
  then have "d \<in> {0,1,2,3,4,5,6,7,8,9}" by auto
  with \<open>c = digit_char d\<close> show "is_digit c"
    by (auto simp: is_digit_def digit_char_def)
qed

lemma digit_val_digit_char: "d < 10 \<Longrightarrow> digit_val (digit_char d) = int d"
  using digit_cases [of d] by (auto simp: digit_val_def digit_char_def)

lemma is_digit_digit_char: "d < 10 \<Longrightarrow> is_digit (digit_char d)"
  using is_digit_iff by blast

lemma digit_val_range: "is_digit c \<Longrightarrow> 0 \<le> digit_val c \<and> digit_val c < 10"
  using is_digit_iff digit_val_digit_char by auto

lemma digit_char_zero: "digit_char 0 = CHR ''0''"
  by (simp add: digit_char_def)

lemma digit_char_eq_zero: "d < 10 \<Longrightarrow> digit_char d = CHR ''0'' \<longleftrightarrow> d = 0"
  using digit_val_digit_char [of d] digit_val_digit_char [of 0] digit_char_zero by auto


lemma decimal_value_snoc: "decimal_value (s @ [c]) = 10 * decimal_value s + digit_val c"
  by (simp add: decimal_value_def)

lemma decimal_value_Nil [simp]: "decimal_value [] = 0"
  by (simp add: decimal_value_def)

lemma decimal_value_nonneg: "list_all is_digit s \<Longrightarrow> 0 \<le> decimal_value s"
proof (induction s rule: rev_induct)
  case Nil
  then show ?case by simp
next
  case (snoc c s)
  then show ?case using digit_val_range [of c] by (simp add: decimal_value_snoc)
qed

lemma decimal_value_bound: "list_all is_digit s \<Longrightarrow> decimal_value s < 10 ^ length s"
proof (induction s rule: rev_induct)
  case Nil
  then show ?case by simp
next
  case (snoc c s)
  then have "decimal_value s + 1 \<le> 10 ^ length s" by simp
  then have "10 * decimal_value s + 10 \<le> 10 * 10 ^ length s" by linarith
  with snoc.prems show ?case using digit_val_range [of c] by (simp add: decimal_value_snoc)
qed

lemma decimal_value_zeros: "decimal_value (replicate k (CHR ''0'') @ s) = decimal_value s"
proof -
  have "foldl (\<lambda>acc c. 10 * acc + digit_val c) 0 (replicate k (CHR ''0'')) = 0"
    by (induction k) (simp_all add: digit_val_def)
  then show ?thesis by (simp add: decimal_value_def)
qed

lemma decimal_digits_digits: "list_all is_digit (decimal_digits n)"
  by (induction n rule: decimal_digits.induct)
     (subst decimal_digits.simps, simp add: is_digit_digit_char)

lemma decimal_digits_not_Nil [simp]: "decimal_digits n \<noteq> []"
  by (subst decimal_digits.simps) simp

lemma decimal_value_digits: "decimal_value (decimal_digits n) = int n"
proof (induction n rule: decimal_digits.induct)
  case (1 n)
  show ?case
  proof (cases "n < 10")
    case True
    then show ?thesis
      by (subst decimal_digits.simps) (simp add: decimal_value_def digit_val_digit_char)
  next
    case False
    with 1 have "decimal_value (decimal_digits (n div 10)) = int (n div 10)" by simp
    with False show ?thesis
      by (subst decimal_digits.simps) (simp add: decimal_value_snoc digit_val_digit_char zdiv_int zmod_int)
  qed
qed

lemma length_decimal_digits: "n < 10 ^ k \<Longrightarrow> 0 < k \<Longrightarrow> length (decimal_digits n) \<le> k"
proof (induction n arbitrary: k rule: decimal_digits.induct)
  case (1 n)
  show ?case
  proof (cases "n < 10")
    case True
    with 1(3) show ?thesis by (subst decimal_digits.simps) simp
  next
    case False
    with 1(2,3) obtain j where k: "k = Suc j" by (cases k) auto
    with False 1(2) have "0 < j" by (cases j) auto
    moreover from k 1(2) have "n div 10 < 10 ^ j" by (simp add: less_mult_imp_div_less mult.commute)
    ultimately have "length (decimal_digits (n div 10)) \<le> j" using 1(1) False by simp
    with False k show ?thesis by (subst decimal_digits.simps) simp
  qed
qed

lemma hd_decimal_digits: "0 < n \<Longrightarrow> hd (decimal_digits n) \<noteq> CHR ''0''"
proof (induction n rule: decimal_digits.induct)
  case (1 n)
  show ?case
  proof (cases "n < 10")
    case True
    with 1(2) show ?thesis by (subst decimal_digits.simps) (simp add: digit_char_eq_zero)
  next
    case False
    then have "0 < n div 10" by simp
    with 1 False have "hd (decimal_digits (n div 10)) \<noteq> CHR ''0''" by simp
    with False show ?thesis by (subst decimal_digits.simps) simp
  qed
qed

lemma length_decimal_digits_ge: "10 ^ k \<le> n \<Longrightarrow> k < length (decimal_digits n)"
proof (rule ccontr)
  assume a: "10 ^ k \<le> n" and "\<not> k < length (decimal_digits n)"
  then have "length (decimal_digits n) \<le> k" by simp
  then have "(10::int) ^ length (decimal_digits n) \<le> 10 ^ k" by (simp add: power_increasing)
  moreover have "int n < 10 ^ length (decimal_digits n)"
    using decimal_value_bound [OF decimal_digits_digits, of n] by (simp add: decimal_value_digits)
  ultimately have "int n < 10 ^ k" by linarith
  then have "n < 10 ^ k" by (metis of_nat_less_iff of_nat_numeral of_nat_power)
  with a show False by simp
qed

section \<open>Facts about \<open>to_standard_time\<close>\<close>

lemma bind_err_Inr_iff: "bind_err r f = Inr v \<longleftrightarrow> (\<exists>u. r = Inr u \<and> f u = Inr v)"
  by (cases r) simp_all

lemma bind_err_Inl_iff:
  "bind_err r f = Inl e \<longleftrightarrow> r = Inl e \<or> (\<exists>u. r = Inr u \<and> f u = Inl e)"
  by (cases r) simp_all

lemma py_int_digits: "s \<noteq> [] \<Longrightarrow> list_all is_digit s \<Longrightarrow> py_int s = Inr (decimal_value s)"
  by (simp add: py_int_def)

lemma py_int_Inr: "py_int s = Inr v \<Longrightarrow> s \<noteq> [] \<and> list_all is_digit s \<and> v = decimal_value s"
  by (auto simp: py_int_def split: if_splits)

lemma py_int_Inl: "py_int s = Inl e \<Longrightarrow> e = ValueError"
  by (auto simp: py_int_def split: if_splits)

lemma parse_milliseconds_digits:
  "list_all is_digit fr \<Longrightarrow> parse_milliseconds fr = Inr (fraction_ms fr)"
  by (auto simp: parse_milliseconds_def fraction_ms_def py_int_def list_all_iff dest: in_set_takeD)

lemma fraction_ms_range:
  assumes "list_all is_digit fr"
  shows "0 \<le> fraction_ms fr \<and> fraction_ms fr < 1000"
proof -
  have t: "list_all is_digit (take 3 fr)"
    using assms by (auto simp: list_all_iff dest: in_set_takeD)
  have "decimal_value (take 3 fr) < 10 ^ length (take 3 fr)"
    by (rule decimal_value_bound [OF t])
  also have "\<dots> \<le> (10::int) ^ 3" by (rule power_increasing) simp_all
  finally have 3: "decimal_value (take 3 fr) < 1000" by simp
  have b: "decimal_value fr < 10 ^ length fr" by (rule decimal_value_bound [OF assms])
  have n: "0 \<le> decimal_value fr" "0 \<le> decimal_value (take 3 fr)"
    using assms t by (simp_all add: decimal_value_nonneg)
  show ?thesis
    using 3 b n by (auto simp: fraction_ms_def)
qed

lemma split_dot_digits:
  assumes "set sf \<subseteq> {c. is_digit c \<or> c = CHR ''.''}" "p \<in> set (py_split (CHR ''.'') sf)"
  shows "list_all is_digit p"
  using py_split_field_chars [OF assms(2)] assms(1) by (auto simp: list_all_iff)

lemma seconds_of_field_eq:
  assumes chars: "set sf \<subseteq> {c. is_digit c \<or> c = CHR ''.''}"
      and split: "py_split (CHR ''.'') sf = sec # rest"
  shows "seconds_of_field sf =
           (if sec = [] then Inl ValueError
            else Inr (decimal_value sec, fraction_ms (case rest of [] \<Rightarrow> [] | fr # _ \<Rightarrow> fr)))"
proof -
  have d: "\<And>p. p \<in> set (sec # rest) \<Longrightarrow> list_all is_digit p"
    using split_dot_digits [OF chars] split by simp
  have sec: "list_all is_digit sec" using d by simp
  show ?thesis
  proof (cases rest)
    case Nil
    then show ?thesis using sec split
      by (simp add: seconds_of_field_def py_index_def py_int_def fraction_ms_def)
  next
    case (Cons fr more)
    then have "list_all is_digit fr" using d by simp
    then show ?thesis using sec split Cons
      by (simp add: seconds_of_field_def py_index_def py_int_def parse_milliseconds_digits)
  qed
qed

lemma decimal_value_small:
  assumes "list_all is_digit s" "length s \<le> k"
  shows "0 \<le> decimal_value s \<and> decimal_value s < 10 ^ k"
proof -
  have "decimal_value s < 10 ^ length s" by (rule decimal_value_bound [OF assms(1)])
  also have "\<dots> \<le> (10::int) ^ k" using assms(2) by (intro power_increasing) simp_all
  finally show ?thesis using decimal_value_nonneg [OF assms(1)] by simp
qed

lemma parse_milliseconds_Inr:
  assumes "parse_milliseconds fr = Inr f"
  shows "0 \<le> f \<and> f < 1000"
proof -
  consider "fr = []" | "length fr = 1" | "length fr = 2" | "fr \<noteq> []" "length fr \<noteq> 1" "length fr \<noteq> 2"
    by blast
  then show ?thesis
  proof cases
    case 1
    with assms show ?thesis by (simp add: parse_milliseconds_def)
  next
    case 2
    then have "parse_milliseconds fr = bind_err (py_int fr) (\<lambda>v. Inr (v * 100))"
      by (auto simp: parse_milliseconds_def)
    with assms obtain v where v: "py_int fr = Inr v" "f = v * 100"
      by (auto simp: bind_err_Inr_iff)
    with 2 have "0 \<le> v \<and> v < 10 ^ 1"
      using py_int_Inr [OF v(1)] decimal_value_small [of fr 1] by simp
    with v show ?thesis by simp
  next
    case 3
    then have "parse_milliseconds fr = bind_err (py_int fr) (\<lambda>v. Inr (v * 10))"
      by (auto simp: parse_milliseconds_def)
    with assms obtain v where v: "py_int fr = Inr v" "f = v * 10"
      by (auto simp: bind_err_Inr_iff)
    with 3 have "0 \<le> v \<and> v < 10 ^ 2"
      using py_int_Inr [OF v(1)] decimal_value_small [of fr 2] by simp
    with v show ?thesis by simp
  next
    case 4
    with assms have v: "py_int (take 3 fr) = Inr f"
      by (simp add: parse_milliseconds_def)
    then have "0 \<le> f \<and> f < 10 ^ 3"
      using py_int_Inr [OF v] decimal_value_small [of "take 3 fr" 3] by simp
    then show ?thesis by simp
  qed
qed

lemma seconds_of_field_Inr:
  assumes "seconds_of_field sf = Inr (s, f)"
  shows "0 \<le> s \<and> 0 \<le> f \<and> f < 1000"
proof -
  obtain sec rest where split: "py_split (CHR ''.'') sf = sec # rest"
    by (cases "py_split (CHR ''.'') sf") auto
  from assms split have s: "py_int sec = Inr s"
    by (auto simp: seconds_of_field_def py_index_def bind_err_Inr_iff Let_def)
  then have s0: "0 \<le> s" using py_int_Inr [OF s] decimal_value_nonneg by simp
  have "0 \<le> f \<and> f < 1000"
  proof (cases rest)
    case Nil
    with assms split s show ?thesis
      by (auto simp: seconds_of_field_def py_index_def)
  next
    case (Cons fr more)
    with assms split s have f: "parse_milliseconds fr = Inr f"
      by (auto simp: seconds_of_field_def py_index_def bind_err_Inr_iff Let_def)
    then show ?thesis by (rule parse_milliseconds_Inr)
  qed
  then show ?thesis using s0 by simp
qed

lemma seconds_of_field_Inl: "seconds_of_field sf = Inl e \<Longrightarrow> e = ValueError"
proof -
  assume a: "seconds_of_field sf = Inl e"
  obtain sec rest where split: "py_split (CHR ''.'') sf = sec # rest"
    by (cases "py_split (CHR ''.'') sf") auto
  have pm: "\<And>fr. parse_milliseconds fr = Inl e \<Longrightarrow> e = ValueError"
    by (auto simp: parse_milliseconds_def bind_err_Inl_iff dest: py_int_Inl split: if_splits)
  from a split show ?thesis
    by (cases rest)
       (auto simp: seconds_of_field_def py_index_def bind_err_Inl_iff Let_def
             dest: py_int_Inl pm split: if_splits)
qed

lemma time_fields_other:
  "length tms \<noteq> 1 \<Longrightarrow> length tms \<noteq> 2 \<Longrightarrow> length tms \<noteq> 3 \<Longrightarrow> time_fields tms = Inl UnboundLocalError"
  by (simp add: time_fields_def)

lemma time_fields_1: "time_fields [sf] = bind_err (seconds_of_field sf) (\<lambda>(s, f). Inr (0, 0, s, f))"
  by (simp add: time_fields_def py_index_def)

lemma time_fields_2:
  "time_fields [mf, sf] =
     bind_err (py_int mf) (\<lambda>m. bind_err (seconds_of_field sf) (\<lambda>(s, f). Inr (0, m, s, f)))"
  by (simp add: time_fields_def py_index_def)

lemma time_fields_3:
  "time_fields [hf, mf, sf] =
     bind_err (py_int hf) (\<lambda>h. bind_err (py_int mf) (\<lambda>m.
       bind_err (seconds_of_field sf) (\<lambda>(s, f). Inr (h, m, s, f))))"
  by (simp add: time_fields_def py_index_def)

lemma length_123_cases:
  assumes "length xs = 1 \<or> length xs = 2 \<or> length xs = 3"
  obtains a where "xs = [a]" | a b where "xs = [a, b]" | a b c where "xs = [a, b, c]"
proof -
  from assms consider "length xs = 1" | "length xs = 2" | "length xs = 3" by blast
  then show thesis
  proof cases
    case 1
    then obtain a where "xs = [a]" by (cases xs) auto
    then show ?thesis by (rule that(1))
  next
    case 2
    then obtain a b where "xs = [a, b]"
      by (cases xs; cases "tl xs") auto
    then show ?thesis by (rule that(2))
  next
    case 3
    then obtain a b c where "xs = [a, b, c]"
      by (cases xs; cases "tl xs"; cases "tl (tl xs)") auto
    then show ?thesis by (rule that(3))
  qed
qed

lemma time_fields_Inl:
  assumes "length tms = 1 \<or> length tms = 2 \<or> length tms = 3" "time_fields tms = Inl e"
  shows "e = ValueError"
  using assms(1)
proof (cases rule: length_123_cases)
  case (1 a)
  with assms(2) show ?thesis
    by (auto simp: time_fields_1 bind_err_Inl_iff dest: seconds_of_field_Inl)
next
  case (2 a b)
  with assms(2) show ?thesis
    by (auto simp: time_fields_2 bind_err_Inl_iff dest: seconds_of_field_Inl py_int_Inl)
next
  case (3 a b c)
  with assms(2) show ?thesis
    by (auto simp: time_fields_3 bind_err_Inl_iff dest: seconds_of_field_Inl py_int_Inl)
qed

lemma py_int_nonneg: "py_int s = Inr v \<Longrightarrow> 0 \<le> v"
  using py_int_Inr decimal_value_nonneg by blast

lemma time_fields_Inr:
  assumes "time_fields tms = Inr (h, m, s, f)"
  shows "0 \<le> h \<and> 0 \<le> m \<and> 0 \<le> s \<and> 0 \<le> f \<and> f < 1000"
proof -
  have len: "length tms = 1 \<or> length tms = 2 \<or> length tms = 3"
    using assms time_fields_other [of tms] by fastforce
  then show ?thesis
  proof (cases rule: length_123_cases)
    case (1 a)
    with assms show ?thesis
      by (auto simp: time_fields_1 bind_err_Inr_iff dest: seconds_of_field_Inr)
  next
    case (2 a b)
    with assms show ?thesis
      by (auto simp: time_fields_2 bind_err_Inr_iff dest: seconds_of_field_Inr py_int_nonneg)
  next
    case (3 a b c)
    with assms show ?thesis
      by (auto simp: time_fields_3 bind_err_Inr_iff dest: seconds_of_field_Inr py_int_nonneg)
  qed
qed

lemma time_fields_ok:
  assumes hm: "length hm \<le> 2" "\<forall>f\<in>set hm. f \<noteq> [] \<and> list_all is_digit f"
      and chars: "set sf \<subseteq> {c. is_digit c \<or> c = CHR ''.''}"
      and split: "py_split (CHR ''.'') sf = sec # rest"
      and sec: "sec \<noteq> []"
  shows "time_fields (hm @ [sf]) =
           Inr (fst (hours_minutes hm), snd (hours_minutes hm), decimal_value sec,
                fraction_ms (case rest of [] \<Rightarrow> [] | fr # _ \<Rightarrow> fr))"
proof -
  have s: "seconds_of_field sf =
      Inr (decimal_value sec, fraction_ms (case rest of [] \<Rightarrow> [] | fr # _ \<Rightarrow> fr))"
    using seconds_of_field_eq [OF chars split] sec by simp
  from hm(1) consider "hm = []" | a where "hm = [a]" | a b where "hm = [a, b]"
    by (cases hm; cases "tl hm"; cases "tl (tl hm)") auto
  then show ?thesis
  proof cases
    case 1
    then show ?thesis by (simp add: time_fields_1 s)
  next
    case 2
    with hm(2) show ?thesis by (simp add: time_fields_2 s py_int_digits)
  next
    case 3
    with hm(2) show ?thesis by (simp add: time_fields_3 s py_int_digits)
  qed
qed

lemma format_0d_nonneg: "0 \<le> i \<Longrightarrow> format_0d w i = zero_pad w (decimal_digits (nat i))"
  by (simp add: format_0d_def)

lemma is_digit_zero: "is_digit (CHR ''0'')"
  by (simp add: is_digit_def)

lemma format_0d_digits: "0 \<le> i \<Longrightarrow> list_all is_digit (format_0d w i)"
  using decimal_digits_digits [of "nat i"]
  by (auto simp: format_0d_nonneg zero_pad_def list_all_iff is_digit_zero)

lemma format_0d_value: "0 \<le> i \<Longrightarrow> decimal_value (format_0d w i) = i"
  by (simp add: format_0d_nonneg zero_pad_def decimal_value_zeros decimal_value_digits)

lemma format_0d_length_ge: "0 \<le> i \<Longrightarrow> w \<le> length (format_0d w i)"
  by (simp add: format_0d_nonneg zero_pad_def)

lemma format_0d_length: "0 \<le> i \<Longrightarrow> i < 10 ^ w \<Longrightarrow> 0 < w \<Longrightarrow> length (format_0d w i) = w"
proof -
  assume a: "0 \<le> i" "i < 10 ^ w" "0 < w"
  then have "nat i < 10 ^ w"
    by (metis nat_less_iff of_nat_numeral of_nat_power)
  then have "length (decimal_digits (nat i)) \<le> w" using a(3) by (rule length_decimal_digits)
  with a(1) show ?thesis by (simp add: format_0d_nonneg zero_pad_def)
qed

lemma format_0d_hd:
  assumes "0 \<le> i" "w < length (format_0d w i)" "0 < w"
  shows "hd (format_0d w i) \<noteq> CHR ''0''"
proof -
  from assms(1,2) have l: "w < length (decimal_digits (nat i))"
    by (simp add: format_0d_nonneg zero_pad_def split: if_splits)
  then have eq: "format_0d w i = decimal_digits (nat i)"
    using assms(1) by (simp add: format_0d_nonneg zero_pad_def)
  have "0 < nat i"
  proof (rule ccontr)
    assume "\<not> 0 < nat i"
    then have "nat i = 0" by simp
    then have "length (decimal_digits (nat i)) = 1" by (subst decimal_digits.simps) simp
    with l assms(3) show False by simp
  qed
  then show ?thesis unfolding eq by (rule hd_decimal_digits)
qed

lemma carry_and_format_eq:
  "0 \<le> s \<Longrightarrow> carry_and_format (h, m, s, f) =
     format_0d 2 (m + h * 60 + s div 60) @ '':'' @ format_0d 2 (s mod 60) @ ''.'' @ format_0d 3 f"
  by (simp add: carry_and_format_def Let_def)

lemma re_sub_time_chars: "set (re_sub_time x) \<subseteq> {c. is_digit c \<or> c = CHR ''.'' \<or> c = CHR '':''}"
  by (auto simp: re_sub_time_def)

lemma re_sub_time_id:
  "set x \<subseteq> {c. is_digit c \<or> c = CHR ''.'' \<or> c = CHR '':''} \<Longrightarrow> re_sub_time x = x"
  by (auto simp: re_sub_time_def intro: filter_True)

lemma to_standard_time_ok:
  assumes fields: "py_split (CHR '':'') (re_sub_time x) = hm @ [sf]"
      and hm: "length hm \<le> 2" "\<forall>f\<in>set hm. f \<noteq> [] \<and> list_all is_digit f"
      and split: "py_split (CHR ''.'') sf = sec # rest"
      and sec: "sec \<noteq> []"
  shows "to_standard_time x =
           Inr (carry_and_format (fst (hours_minutes hm), snd (hours_minutes hm), decimal_value sec,
                fraction_ms (case rest of [] \<Rightarrow> [] | fr # _ \<Rightarrow> fr)))"
proof -
  have "sf \<in> set (py_split (CHR '':'') (re_sub_time x))" using fields by simp
  then have "set sf \<subseteq> set (re_sub_time x) - {CHR '':''}" by (rule py_split_field_chars)
  then have chars: "set sf \<subseteq> {c. is_digit c \<or> c = CHR ''.''}"
    using re_sub_time_chars [of x] by auto
  show ?thesis
    by (simp add: to_standard_time_def fields time_fields_ok [OF hm chars split sec])
qed


lemma digit_not_colon: "is_digit c \<Longrightarrow> c \<noteq> CHR '':'' \<and> c \<noteq> CHR ''.''"
  by (auto simp: is_digit_def)

lemma digits_no_sep:
  "list_all is_digit s \<Longrightarrow> CHR '':'' \<notin> set s \<and> CHR ''.'' \<notin> set s"
  using digit_not_colon by (auto simp: list_all_iff)

lemma canonical_fixed:
  assumes "0 \<le> m" "0 \<le> s" "s < 60" "0 \<le> f" "f < 1000"
  shows "to_standard_time (format_0d 2 m @ '':'' @ format_0d 2 s @ ''.'' @ format_0d 3 f) =
           Inr (format_0d 2 m @ '':'' @ format_0d 2 s @ ''.'' @ format_0d 3 f)"
proof -
  let ?M = "format_0d 2 m" and ?S = "format_0d 2 s" and ?F = "format_0d 3 f"
  let ?y = "?M @ '':'' @ ?S @ ''.'' @ ?F"
  have dM: "list_all is_digit ?M" and dS: "list_all is_digit ?S" and dF: "list_all is_digit ?F"
    using assms by (simp_all add: format_0d_digits)
  have nM: "?M \<noteq> []" and nS: "?S \<noteq> []"
    using format_0d_length_ge [OF assms(1), of 2] format_0d_length_ge [OF assms(2), of 2] by auto
  have lF: "length ?F = 3" using assms by (intro format_0d_length) simp_all
  have "set ?y \<subseteq> {c. is_digit c \<or> c = CHR ''.'' \<or> c = CHR '':''}"
    using dM dS dF by (auto simp: list_all_iff)
  then have id: "re_sub_time ?y = ?y" by (rule re_sub_time_id)
  have "CHR '':'' \<notin> set (?S @ ''.'' @ ?F)"
    using digits_no_sep [OF dS] digits_no_sep [OF dF] by simp
  then have sp1: "py_split (CHR '':'') ?y = [?M] @ [?S @ ''.'' @ ?F]"
    using py_split_append [of "CHR '':''" ?M "?S @ ''.'' @ ?F"] digits_no_sep [OF dM]
    by (simp add: py_split_no_sep)
  have sp2: "py_split (CHR ''.'') (?S @ ''.'' @ ?F) = ?S # [?F]"
    using py_split_append [of "CHR ''.''" ?S ?F] digits_no_sep [OF dS] digits_no_sep [OF dF]
    by (simp add: py_split_no_sep)
  have "to_standard_time ?y =
      Inr (carry_and_format (fst (hours_minutes [?M]), snd (hours_minutes [?M]), decimal_value ?S,
           fraction_ms (case [?F] of [] \<Rightarrow> [] | fr # _ \<Rightarrow> fr)))"
  proof (rule to_standard_time_ok [OF _ _ _ sp2 nS])
    show "py_split (CHR '':'') (re_sub_time ?y) = [?M] @ [?S @ ''.'' @ ?F]"
      unfolding id by (rule sp1)
    show "length [?M] \<le> 2" by simp
    show "\<forall>f\<in>set [?M]. f \<noteq> [] \<and> list_all is_digit f" using nM dM by simp
  qed
  also have "fraction_ms (case [?F] of [] \<Rightarrow> [] | fr # _ \<Rightarrow> fr) = f"
    using lF assms by (simp add: fraction_ms_def format_0d_value)
  finally show ?thesis
    using assms by (simp add: format_0d_value carry_and_format_eq)
qed

lemma to_standard_time_shape:
  assumes "to_standard_time x = Inr y"
  shows "\<exists>m s f. 0 \<le> m \<and> 0 \<le> s \<and> s < 60 \<and> 0 \<le> f \<and> f < 1000 \<and>
           y = format_0d 2 m @ '':'' @ format_0d 2 s @ ''.'' @ format_0d 3 f"
proof -
  from assms obtain t where t: "time_fields (py_split (CHR '':'') (re_sub_time x)) = Inr t"
    and y: "y = carry_and_format t"
    by (auto simp: to_standard_time_def bind_err_Inr_iff Let_def)
  obtain h m s f where [simp]: "t = (h, m, s, f)" by (cases t) auto
  from t have r: "0 \<le> h \<and> 0 \<le> m \<and> 0 \<le> s \<and> 0 \<le> f \<and> f < 1000"
    using time_fields_Inr by simp
  then have "y = format_0d 2 (m + h * 60 + s div 60) @ '':'' @ format_0d 2 (s mod 60) @ ''.'' @ format_0d 3 f"
    using y by (simp add: carry_and_format_eq)
  moreover have "0 \<le> m + h * 60 + s div 60" using r by (simp add: pos_imp_zdiv_nonneg_iff)
  moreover have "0 \<le> s mod 60" "s mod 60 < 60" by simp_all
  ultimately show ?thesis using r by blast
qed

lemma to_standard_time_fixed:
  "to_standard_time x = Inr y \<Longrightarrow> to_standard_time y = Inr y"
  using to_standard_time_shape [of x y] canonical_fixed by blast

section \<open>Claims about \<open>to_standard_time\<close>\<close>

text \<open>
  C1, as amended. Let the input, with every character other than a digit, a dot and a colon
  removed, split at the colons into at most two fields \<open>hm\<close> followed by a last field
  \<open>sf\<close>; let every field of \<open>hm\<close> be a non-empty run of digits, and let \<open>sf\<close> split at
  its dots into a non-empty first part \<open>sec\<close> and the parts \<open>rest\<close>. Then
  \<open>to_standard_time\<close> returns a string \<open>mm:ss.fff\<close> in which \<open>mm\<close> is a decimal numeral
  of at least two digits (with no leading zero beyond the second digit) whose value is
  hours times 60 plus minutes plus the carry of the seconds, \<open>ss\<close> has exactly two digits
  and is the seconds modulo 60, and \<open>fff\<close> has exactly three digits and is the fraction
  read as milliseconds: one digit counts hundreds, two digits count tens, and of three or
  more digits the first three are taken. The three examples of the docstring hold.
\<close>

theorem to_standard_time_canonical:
  assumes "py_split (CHR '':'') (re_sub_time x) = hm @ [sf]"
      and "length hm \<le> 2"
      and "\<forall>f\<in>set hm. f \<noteq> [] \<and> list_all is_digit f"
      and "py_split (CHR ''.'') sf = sec # rest"
      and "sec \<noteq> []"
  shows "(\<exists>mm ss fff.
            to_standard_time x = Inr (mm @ '':'' @ ss @ ''.'' @ fff)
          \<and> list_all is_digit mm \<and> 2 \<le> length mm \<and> (2 < length mm \<longrightarrow> hd mm \<noteq> CHR ''0'')
          \<and> decimal_value mm =
              fst (hours_minutes hm) * 60 + snd (hours_minutes hm) + decimal_value sec div 60
          \<and> list_all is_digit ss \<and> length ss = 2 \<and> decimal_value ss = decimal_value sec mod 60
          \<and> list_all is_digit fff \<and> length fff = 3
          \<and> decimal_value fff = fraction_ms (case rest of [] \<Rightarrow> [] | fr # _ \<Rightarrow> fr))
       \<and> to_standard_time ''47.243'' = Inr ''00:47.243''
       \<and> to_standard_time ''04:24.638'' = Inr ''04:24.638''
       \<and> to_standard_time ''1:2:3.4'' = Inr ''62:03.400''"
proof -
  let ?h = "fst (hours_minutes hm)" and ?m = "snd (hours_minutes hm)"
  let ?s = "decimal_value sec"
  let ?f = "fraction_ms (case rest of [] \<Rightarrow> [] | fr # _ \<Rightarrow> fr)"
  let ?M = "?m + ?h * 60 + ?s div 60"
  have res: "to_standard_time x = Inr (carry_and_format (?h, ?m, ?s, ?f))"
    using assms by (rule to_standard_time_ok)
  have "sf \<in> set (py_split (CHR '':'') (re_sub_time x))" using assms(1) by simp
  then have "set sf \<subseteq> set (re_sub_time x) - {CHR '':''}" by (rule py_split_field_chars)
  then have chars: "set sf \<subseteq> {c. is_digit c \<or> c = CHR ''.''}"
    using re_sub_time_chars [of x] by auto
  have "time_fields (hm @ [sf]) = Inr (?h, ?m, ?s, ?f)"
    by (rule time_fields_ok [OF assms(2,3) chars assms(4,5)])
  then have r: "0 \<le> ?h \<and> 0 \<le> ?m \<and> 0 \<le> ?s \<and> 0 \<le> ?f \<and> ?f < 1000"
    by (rule time_fields_Inr)
  have M0: "0 \<le> ?M" using r by (simp add: pos_imp_zdiv_nonneg_iff)
  have S0: "0 \<le> ?s mod 60" "?s mod 60 < 10 ^ 2" by simp_all
  have F0: "0 \<le> ?f" "?f < 10 ^ 3" using r by simp_all
  have out: "to_standard_time x =
      Inr (format_0d 2 ?M @ '':'' @ format_0d 2 (?s mod 60) @ ''.'' @ format_0d 3 ?f)"
    using res r by (simp add: carry_and_format_eq)
  have "list_all is_digit (format_0d 2 ?M)" using M0 by (rule format_0d_digits)
  moreover have "2 \<le> length (format_0d 2 ?M)" using M0 by (rule format_0d_length_ge)
  moreover have "2 < length (format_0d 2 ?M) \<longrightarrow> hd (format_0d 2 ?M) \<noteq> CHR ''0''"
    using format_0d_hd [OF M0, of 2] by simp
  moreover have "decimal_value (format_0d 2 ?M) = ?h * 60 + ?m + ?s div 60"
    using format_0d_value [OF M0, of 2] by simp
  moreover have "list_all is_digit (format_0d 2 (?s mod 60))" using S0(1) by (rule format_0d_digits)
  moreover have "length (format_0d 2 (?s mod 60)) = 2" using S0 by (rule format_0d_length) simp
  moreover have "decimal_value (format_0d 2 (?s mod 60)) = ?s mod 60"
    using S0(1) by (rule format_0d_value)
  moreover have "list_all is_digit (format_0d 3 ?f)" using F0(1) by (rule format_0d_digits)
  moreover have "length (format_0d 3 ?f) = 3" using F0 by (rule format_0d_length) simp
  moreover have "decimal_value (format_0d 3 ?f) = ?f" using F0(1) by (rule format_0d_value)
  ultimately have general: "\<exists>mm ss fff.
            to_standard_time x = Inr (mm @ '':'' @ ss @ ''.'' @ fff)
          \<and> list_all is_digit mm \<and> 2 \<le> length mm \<and> (2 < length mm \<longrightarrow> hd mm \<noteq> CHR ''0'')
          \<and> decimal_value mm = ?h * 60 + ?m + ?s div 60
          \<and> list_all is_digit ss \<and> length ss = 2 \<and> decimal_value ss = ?s mod 60
          \<and> list_all is_digit fff \<and> length fff = 3
          \<and> decimal_value fff = ?f"
    using out by blast
  have e1: "to_standard_time ''47.243'' = Inr ''00:47.243''" by code_simp
  have e2: "to_standard_time ''04:24.638'' = Inr ''04:24.638''" by code_simp
  have e3: "to_standard_time ''1:2:3.4'' = Inr ''62:03.400''" by code_simp
  from general e1 e2 e3 show ?thesis by blast
qed

theorem to_standard_time_canonical_witness:
  "\<exists>mm ss fff. to_standard_time ''1:2:3.4'' = Inr (mm @ '':'' @ ss @ ''.'' @ fff)
     \<and> length ss = 2 \<and> length fff = 3
     \<and> decimal_value mm = 62 \<and> decimal_value ss = 3 \<and> decimal_value fff = 400"
proof -
  have 1: "py_split (CHR '':'') (re_sub_time ''1:2:3.4'') = [''1'', ''2''] @ [''3.4'']"
    by code_simp
  have 2: "length [''1'', ''2''] \<le> 2" by simp
  have 3: "\<forall>f\<in>set [''1'', ''2'']. f \<noteq> [] \<and> list_all is_digit f"
    by (simp add: is_digit_def)
  have 4: "py_split (CHR ''.'') ''3.4'' = ''3'' # [''4'']" by code_simp
  have 5: "''3'' \<noteq> []" by simp
  have v: "fst (hours_minutes [''1'', ''2'']) * 60 + snd (hours_minutes [''1'', ''2''])
            + decimal_value ''3'' div 60 = 62"
      "decimal_value ''3'' mod 60 = 3"
      "fraction_ms (case [''4''] of [] \<Rightarrow> [] | fr # _ \<Rightarrow> fr) = 400"
    by (simp_all add: decimal_value_def digit_val_def fraction_ms_def)
  from to_standard_time_canonical [OF 1 2 3 4 5, THEN conjunct1] show ?thesis
    unfolding v by blast
qed

text \<open>
  C1 as stated fails: the empty string splits into one (empty) field, and \<open>int('')\<close>
  raises \<open>ValueError\<close>.
\<close>

theorem to_standard_time_empty_counterexample:
  "length (py_split (CHR '':'') (re_sub_time '''')) = 1 \<and> to_standard_time '''' = Inl ValueError"
  by code_simp

text \<open>
  C6, as amended. Under the conditions of C1 on the input (at most two fields of digits
  before the last field, and a last field with at least one digit before its first dot),
  \<open>to_standard_time\<close> returns a string, and \<open>to_standard_time\<close> of that string returns
  the same string.
\<close>

theorem to_standard_time_idempotent:
  assumes "py_split (CHR '':'') (re_sub_time x) = hm @ [sf]"
      and "length hm \<le> 2"
      and "\<forall>f\<in>set hm. f \<noteq> [] \<and> list_all is_digit f"
      and "py_split (CHR ''.'') sf = sec # rest"
      and "sec \<noteq> []"
  shows "\<exists>y. to_standard_time x = Inr y \<and> to_standard_time y = Inr y"
proof -
  have "\<exists>y. to_standard_time x = Inr y"
    using to_standard_time_ok [OF assms] by blast
  then obtain y where y: "to_standard_time x = Inr y" by blast
  then have "to_standard_time y = Inr y" by (rule to_standard_time_fixed)
  with y show ?thesis by blast
qed

theorem to_standard_time_idempotent_witness:
  "to_standard_time ''1:2:3.4'' = Inr ''62:03.400''
   \<and> to_standard_time ''62:03.400'' = Inr ''62:03.400''"
proof -
  have 1: "py_split (CHR '':'') (re_sub_time ''1:2:3.4'') = [''1'', ''2''] @ [''3.4'']"
    by code_simp
  have 2: "length [''1'', ''2''] \<le> 2" by simp
  have 3: "\<forall>f\<in>set [''1'', ''2'']. f \<noteq> [] \<and> list_all is_digit f"
    by (simp add: is_digit_def)
  have 4: "py_split (CHR ''.'') ''3.4'' = ''3'' # [''4'']" by code_simp
  have 5: "''3'' \<noteq> []" by simp
  have v: "to_standard_time ''1:2:3.4'' = Inr ''62:03.400''" by code_simp
  from to_standard_time_idempotent [OF 1 2 3 4 5]
  obtain y where "to_standard_time ''1:2:3.4'' = Inr y" "to_standard_time y = Inr y"
    by blast
  with v show ?thesis by simp
qed

text \<open>
  C6 as stated fails: \<open>abc:1\<close> splits into two fields after stripping, but the first
  field is empty and \<open>int('')\<close> raises \<open>ValueError\<close>, so that no string is returned
  that a second call could reproduce.
\<close>

theorem to_standard_time_idempotent_counterexample:
  "length (py_split (CHR '':'') (re_sub_time ''abc:1'')) = 2
   \<and> to_standard_time ''abc:1'' = Inl ValueError"
  by code_simp

text \<open>
  C9. With four fields no branch of the \<open>if/elif/elif\<close> chain is taken and the call ends
  in \<open>UnboundLocalError\<close>, the exception for a local variable that was never assigned.
\<close>

theorem to_standard_time_four_fields:
  "to_standard_time ''1:2:3:4'' = Inl UnboundLocalError"
  by code_simp

lemma to_standard_time_other_counts:
  assumes "length (py_split (CHR '':'') (re_sub_time x)) \<notin> {1, 2, 3}"
  shows "to_standard_time x = Inl UnboundLocalError"
  using assms by (simp add: to_standard_time_def time_fields_other)

section \<open>Facts about \<open>ttml_to_lrc\<close>\<close>

lemma or_list_fallback: "or_list (q e) (u e) = fallback q u e"
  by (simp add: or_list_def fallback_def)

lemma line_text_eq:
  "line_text line =
     (if spans_of line \<noteq> [] then py_strip (concat (itertext line))
      else case el_text line of None \<Rightarrow> [] | Some t \<Rightarrow> py_strip t)"
proof -
  have "py_strip [] = []" by (simp add: py_strip_def)
  then show ?thesis
    by (auto simp: line_text_def spans_of_def or_list_fallback truthy_def split: option.splits)
qed

lemma foldl_untimed_line:
  "foldl untimed_line acc ls = acc @ filter (\<lambda>t. t \<noteq> []) (map line_text ls)"
  by (induction ls arbitrary: acc) (simp_all add: untimed_line_def Let_def)

lemma foldl_untimed_div:
  "foldl untimed_div acc ds =
     acc @ filter (\<lambda>t. t \<noteq> []) (map line_text (concat (map lines_of ds)))"
  by (induction ds arbitrary: acc)
     (simp_all add: untimed_div_def or_list_fallback lines_of_def [symmetric] foldl_untimed_line)

lemma untimed_lrc_eq:
  "untimed_lrc body =
     ''[!text]'' @ py_join newline
        (filter (\<lambda>t. t \<noteq> []) (map line_text (concat (map lines_of (groups_of body)))))"
  by (simp add: untimed_lrc_def or_list_fallback groups_of_def [symmetric] foldl_untimed_div)

lemma foldl_timed_line:
  "foldl timed_line acc ls =
     acc @ map (\<lambda>line. Line (el_get line ''begin'') (el_get line ''end'') (line_text line)) ls"
  by (induction ls arbitrary: acc) (simp_all add: timed_line_def)

lemma timed_div_eq: "timed_div acc dv = acc @ group_items dv"
  by (auto simp: timed_div_def group_items_def section_label_def or_str_def truthy_def
        or_list_fallback lines_of_def [symmetric] foldl_timed_line Let_def split: option.splits)

lemma foldl_timed_div: "foldl timed_div acc ds = acc @ concat (map group_items ds)"
  by (induction ds arbitrary: acc) (simp_all add: timed_div_eq)

lemma timed_lrc_eq: "timed_lrc body = render_items [] (concat (map group_items (groups_of body)))"
  by (simp add: timed_lrc_def or_list_fallback groups_of_def [symmetric] foldl_timed_div)

lemma ttml_to_lrc_parsed:
  assumes "ttml \<noteq> []" "fromstring ttml = Some root"
  shows "ttml_to_lrc fromstring ttml =
           (case body_of root of
              None \<Rightarrow> Inr []
            | Some body \<Rightarrow>
                if py_in timing_none ttml then Inr (untimed_lrc body) else timed_lrc body)"
  using assms
  by (auto simp: ttml_to_lrc_def body_of_def fallback_def first_match_def Let_def
        split: list.splits option.splits)

lemma starts_with_iff: "starts_with n h \<longleftrightarrow> (\<exists>s. h = n @ s)"
  by (induction n h rule: starts_with.induct) auto

lemma py_in_iff: "py_in n h \<longleftrightarrow> (\<exists>p s. h = p @ n @ s)"
proof (induction h)
  case Nil
  then show ?case by auto
next
  case (Cons c cs)
  show ?case
  proof
    assume "py_in n (c # cs)"
    then consider "starts_with n (c # cs)" | "py_in n cs" by auto
    then show "\<exists>p s. c # cs = p @ n @ s"
    proof cases
      case 1
      then obtain s where "c # cs = n @ s" using starts_with_iff by blast
      then have "c # cs = [] @ n @ s" by simp
      then show ?thesis by blast
    next
      case 2
      then obtain p s where "cs = p @ n @ s" using Cons.IH by blast
      then have "c # cs = (c # p) @ n @ s" by simp
      then show ?thesis by blast
    qed
  next
    assume "\<exists>p s. c # cs = p @ n @ s"
    then obtain p s where ps: "c # cs = p @ n @ s" by blast
    show "py_in n (c # cs)"
    proof (cases p)
      case Nil
      with ps have "starts_with n (c # cs)" using starts_with_iff by auto
      then show ?thesis by simp
    next
      case (Cons a p')
      with ps have "cs = p' @ n @ s" by simp
      then have "py_in n cs" using Cons.IH by blast
      then show ?thesis by simp
    qed
  qed
qed

lemma render_items_append:
  "render_items acc (xs @ ys) = bind_err (render_items acc xs) (\<lambda>a. render_items a ys)"
proof (induction acc xs rule: render_items.induct)
  case (1 lrc_text)
  then show ?case by simp
next
  case (2 lrc_text p items)
  then show ?case by simp
next
  case (3 lrc_text b e t items)
  then show ?case by (cases "to_standard_time_of b") simp_all
qed

lemma render_lines:
  assumes "\<forall>l\<in>set ls. to_standard_time_of (el_get l ''begin'') = Inr (ts l)"
  shows "render_items acc
           (map (\<lambda>line. Line (el_get line ''begin'') (el_get line ''end'') (line_text line)) ls) =
         Inr (acc @ concat (map (\<lambda>l. ''['' @ ts l @ '']'' @ line_text l @ newline) ls))"
  using assms by (induction ls arbitrary: acc) simp_all

lemma render_group:
  assumes "\<forall>l\<in>set (lines_of dv). to_standard_time_of (el_get l ''begin'') = Inr (ts l)"
  shows "render_items acc (group_items dv) =
         Inr (acc @ (case section_label dv of None \<Rightarrow> [] | Some label \<Rightarrow> ''['' @ label @ '']'' @ newline)
                  @ concat (map (\<lambda>l. ''['' @ ts l @ '']'' @ line_text l @ newline) (lines_of dv)))"
  using render_lines [OF assms]
  by (cases "section_label dv") (simp_all add: group_items_def)

lemma render_groups:
  assumes "\<forall>dv\<in>set ds. \<forall>l\<in>set (lines_of dv). to_standard_time_of (el_get l ''begin'') = Inr (ts l)"
  shows "render_items acc (concat (map group_items ds)) =
         Inr (acc @ concat (map (\<lambda>dv.
                (case section_label dv of None \<Rightarrow> [] | Some label \<Rightarrow> ''['' @ label @ '']'' @ newline)
                @ concat (map (\<lambda>l. ''['' @ ts l @ '']'' @ line_text l @ newline) (lines_of dv))) ds))"
  using assms
proof (induction ds arbitrary: acc)
  case Nil
  then show ?case by simp
next
  case (Cons d ds)
  then have d: "\<forall>l\<in>set (lines_of d). to_standard_time_of (el_get l ''begin'') = Inr (ts l)"
    and ds: "\<forall>dv\<in>set ds. \<forall>l\<in>set (lines_of dv). to_standard_time_of (el_get l ''begin'') = Inr (ts l)"
    by simp_all
  show ?case
    by (simp add: render_items_append render_group [OF d] Cons.IH [OF ds])
qed

lemma render_items_Inl:
  "render_items acc items = Inl err \<Longrightarrow>
     \<exists>b e t. Line b e t \<in> set items \<and> to_standard_time_of b = Inl err"
proof (induction acc items rule: render_items.induct)
  case (1 lrc_text)
  then show ?case by simp
next
  case (2 lrc_text p items)
  from 2(2) have "render_items (lrc_text @ ''['' @ p @ '']'' @ newline) items = Inl err"
    by simp
  then obtain b e t where "Line b e t \<in> set items" "to_standard_time_of b = Inl err"
    using 2(1) by blast
  then show ?case by auto
next
  case (3 lrc_text b e t items)
  show ?case
  proof (cases "to_standard_time_of b")
    case (Inl e')
    with 3(2) have "e' = err" by simp
    with Inl have "Line b e t \<in> set (Line b e t # items) \<and> to_standard_time_of b = Inl err"
      by simp
    then show ?thesis by blast
  next
    case (Inr ts)
    with 3(2) have "render_items (lrc_text @ ''['' @ ts @ '']'' @ t @ newline) items = Inl err"
      by simp
    then obtain b' e' t' where "Line b' e' t' \<in> set items" "to_standard_time_of b' = Inl err"
      using 3(1) by blast
    then have "Line b' e' t' \<in> set (Line b e t # items) \<and> to_standard_time_of b' = Inl err"
      by simp
    then show ?thesis by blast
  qed
qed

lemma render_items_fails:
  "Line b e t \<in> set items \<Longrightarrow> to_standard_time_of b = Inl err \<Longrightarrow>
     \<exists>err'. render_items acc items = Inl err'"
proof (induction acc items rule: render_items.induct)
  case (1 lrc_text)
  then show ?case by simp
next
  case (2 lrc_text p items)
  from 2(2) have "Line b e t \<in> set items" by simp
  from 2(1) [OF this 2(3)] show ?case by simp
next
  case (3 lrc_text b' e' t' items)
  show ?case
  proof (cases "to_standard_time_of b'")
    case (Inl x)
    then show ?thesis by simp
  next
    case (Inr ts)
    with 3(2,3) have "Line b e t \<in> set items" by auto
    from 3(1) [OF this 3(3), of ts] Inr show ?thesis by simp
  qed
qed

lemma render_items_length:
  "render_items acc items = Inr out \<Longrightarrow> length acc + length items \<le> length out"
proof (induction acc items arbitrary: out rule: render_items.induct)
  case (1 lrc_text)
  then show ?case by simp
next
  case (2 lrc_text p items)
  from 2(2) have "render_items (lrc_text @ ''['' @ p @ '']'' @ newline) items = Inr out"
    by simp
  from 2(1) [OF this] show ?case by simp
next
  case (3 lrc_text b e t items)
  from 3(2) obtain ts where ts: "to_standard_time_of b = Inr ts"
    and r: "render_items (lrc_text @ ''['' @ ts @ '']'' @ t @ newline) items = Inr out"
    by (cases "to_standard_time_of b") simp_all
  from 3(1) [OF r] show ?case by simp
qed

lemma render_items_empty: "render_items [] items = Inr [] \<longleftrightarrow> items = []"
  using render_items_length [of "[]" items "[]"] by auto

lemma group_items_lines:
  "filter is_line (group_items dv) =
     map (\<lambda>line. Line (el_get line ''begin'') (el_get line ''end'') (line_text line)) (lines_of dv)"
  by (cases "section_label dv") (simp_all add: group_items_def is_line_def filter_map comp_def)

lemma group_items_Nil: "group_items dv = [] \<longleftrightarrow> section_label dv = None \<and> lines_of dv = []"
  by (cases "section_label dv") (simp_all add: group_items_def)

section \<open>Claims about \<open>ttml_to_lrc\<close>\<close>

lemma filter_lines_groups:
  "filter is_line (concat (map group_items ds)) =
     map (\<lambda>line. Line (el_get line ''begin'') (el_get line ''end'') (line_text line))
       (concat (map lines_of ds))"
  by (induction ds) (simp_all add: group_items_lines)

lemma timed_lrc_groups:
  assumes "\<forall>dv\<in>set (groups_of body). \<forall>l\<in>set (lines_of dv).
             to_standard_time_of (el_get l ''begin'') = Inr (ts l)"
  shows "timed_lrc body =
           Inr (concat (map (\<lambda>dv.
                  (case section_label dv of None \<Rightarrow> [] | Some label \<Rightarrow> ''['' @ label @ '']'' @ newline)
                  @ concat (map (\<lambda>l. ''['' @ ts l @ '']'' @ line_text l @ newline) (lines_of dv)))
                (groups_of body)))"
  using render_groups [OF assms, of "[]"] by (simp add: timed_lrc_eq)

lemma timed_branch_taken:
  assumes "ttml \<noteq> []" "fromstring ttml = Some root" "body_of root = Some body"
      and "\<not> py_in timing_none ttml"
  shows "ttml_to_lrc fromstring ttml = timed_lrc body"
  using assms by (simp add: ttml_to_lrc_parsed)

text \<open>
  C2. For a timed document (the raw text does not contain the timing marker) that parses
  and in which a body is found, and whose lines all have a \<open>begin\<close> that
  \<open>to_standard_time\<close> normalises (to \<open>ts l\<close> for the line \<open>l\<close>), the result is, for each
  group in document order, the line \<open>[label]\<close> when the group has a non-empty section-part
  label under the qualified name or the alias, then for each line of the group
  \<open>[ts l]\<close>, its text and a newline. The \<open>end\<close> attribute does not occur in the result.
\<close>

theorem ttml_to_lrc_timed:
  assumes "ttml \<noteq> []" and "fromstring ttml = Some root" and "body_of root = Some body"
      and "\<not> py_in timing_none ttml"
      and "\<forall>dv\<in>set (groups_of body). \<forall>l\<in>set (lines_of dv).
             to_standard_time_of (el_get l ''begin'') = Inr (ts l)"
  shows "ttml_to_lrc fromstring ttml =
           Inr (concat (map (\<lambda>dv.
                  (case section_label dv of None \<Rightarrow> [] | Some label \<Rightarrow> ''['' @ label @ '']'' @ newline)
                  @ concat (map (\<lambda>l. ''['' @ ts l @ '']'' @ line_text l @ newline) (lines_of dv)))
                (groups_of body)))"
  using timed_branch_taken [of ttml fromstring root body, OF assms(1-4)]
    timed_lrc_groups [OF assms(5)] by simp

theorem ttml_to_lrc_timed_witness:
  "ttml_to_lrc example_parser verse_ttml =
     Inr (''[Verse]'' @ newline @ ''[00:01.000]hello'' @ newline)"
proof -
  have 1: "verse_ttml \<noteq> []" by code_simp
  have 2: "example_parser verse_ttml = Some verse_doc" by code_simp
  have 3: "body_of verse_doc = Some verse_body" by code_simp
  have 4: "\<not> py_in timing_none verse_ttml" by code_simp
  have 5: "\<forall>dv\<in>set (groups_of verse_body). \<forall>l\<in>set (lines_of dv).
             to_standard_time_of (el_get l ''begin'') = Inr ((\<lambda>_. ''00:01.000'') l)"
    by code_simp
  have 6: "concat (map (\<lambda>dv.
                  (case section_label dv of None \<Rightarrow> [] | Some label \<Rightarrow> ''['' @ label @ '']'' @ newline)
                  @ concat (map (\<lambda>l. ''['' @ (\<lambda>_. ''00:01.000'') l @ '']'' @ line_text l @ newline)
                      (lines_of dv)))
                (groups_of verse_body)) = ''[Verse]'' @ newline @ ''[00:01.000]hello'' @ newline"
    by code_simp
  show ?thesis
    using ttml_to_lrc_timed [of verse_ttml example_parser verse_doc verse_body "\<lambda>_. ''00:01.000''",
        OF 1 2 3 4 5]
    unfolding 6 .
qed

text \<open>
  C3, as amended. When the document parses and neither the namespace-qualified lookup
  nor the unqualified lookup finds a body, \<open>ttml_to_lrc\<close> returns the empty string; it does
  not raise.
\<close>

theorem ttml_to_lrc_no_body:
  assumes "ttml \<noteq> []" and "fromstring ttml = Some root"
      and "findall_descendants (tt ''body'') root = []"
      and "findall_children ''body'' root = []"
  shows "ttml_to_lrc fromstring ttml = Inr []"
  using assms by (simp add: ttml_to_lrc_def first_match_def)

theorem ttml_to_lrc_no_body_witness:
  "no_body_ttml \<noteq> [] \<and> ttml_to_lrc example_parser no_body_ttml = Inr []"
proof -
  have 1: "no_body_ttml \<noteq> []" by code_simp
  have 2: "example_parser no_body_ttml = Some no_body_doc" by code_simp
  have 3: "findall_descendants (tt ''body'') no_body_doc = []" by code_simp
  have 4: "findall_children ''body'' no_body_doc = []" by code_simp
  show ?thesis
    using 1 ttml_to_lrc_no_body [of no_body_ttml example_parser no_body_doc, OF 1 2 3 4] by simp
qed

text \<open>
  C3 as stated fails: a well-formed document in which both lookups find no body is
  answered with the empty string, not with an exception.
\<close>

theorem ttml_to_lrc_no_body_counterexample:
  "example_parser no_body_ttml = Some no_body_doc
   \<and> findall_descendants (tt ''body'') no_body_doc = []
   \<and> findall_children ''body'' no_body_doc = []
   \<and> ttml_to_lrc example_parser no_body_ttml = Inr []"
  by code_simp

text \<open>
  C4. For a document that parses and in which a body is found, the untimed branch is
  taken exactly when the raw text contains the marker \<open>itunes:timing="None"\<close>, whatever
  the tree is. The untimed result is \<open>[!text]\<close> followed by the texts of the lines of all
  groups, in order, without the empty ones, joined by single newlines; the text of a line
  is the stripped text of all its descendants when a span is found in it and its own
  stripped text otherwise. Without the marker the result is the timed rendering.
\<close>

theorem ttml_to_lrc_mode:
  assumes "ttml \<noteq> []" and "fromstring ttml = Some root" and "body_of root = Some body"
  shows "ttml_to_lrc fromstring ttml =
           (if (\<exists>p s. ttml = p @ ''itunes:timing=\"None\"'' @ s)
            then Inr (''[!text]'' @ py_join newline
                   (filter (\<lambda>t. t \<noteq> [])
                      (map (\<lambda>line. if spans_of line \<noteq> [] then py_strip (concat (itertext line))
                                   else case el_text line of None \<Rightarrow> [] | Some t \<Rightarrow> py_strip t)
                         (concat (map lines_of (groups_of body))))))
            else timed_lrc body)"
proof -
  have m: "timing_none = ''itunes:timing=\"None\"''" by (simp add: timing_none_def)
  have lt: "line_text = (\<lambda>line. if spans_of line \<noteq> [] then py_strip (concat (itertext line))
                                   else case el_text line of None \<Rightarrow> [] | Some t \<Rightarrow> py_strip t)"
    by (rule ext) (rule line_text_eq)
  have "ttml_to_lrc fromstring ttml =
      (if py_in timing_none ttml then Inr (untimed_lrc body) else timed_lrc body)"
    using assms by (simp add: ttml_to_lrc_parsed)
  then show ?thesis
    unfolding py_in_iff untimed_lrc_eq m lt .
qed

theorem ttml_to_lrc_mode_witness:
  "ttml_to_lrc example_parser untimed_ttml = Inr (''[!text]'' @ ''a'' @ newline @ ''b'')"
proof -
  have 1: "untimed_ttml \<noteq> []" by code_simp
  have 2: "example_parser untimed_ttml = Some untimed_doc" by code_simp
  have 3: "body_of untimed_doc = Some untimed_body" by code_simp
  have "py_in ''itunes:timing=\"None\"'' untimed_ttml" by code_simp
  then have 4: "\<exists>p s. untimed_ttml = p @ ''itunes:timing=\"None\"'' @ s"
    unfolding py_in_iff .
  have 5: "''[!text]'' @ py_join newline
                   (filter (\<lambda>t. t \<noteq> [])
                      (map (\<lambda>line. if spans_of line \<noteq> [] then py_strip (concat (itertext line))
                                   else case el_text line of None \<Rightarrow> [] | Some t \<Rightarrow> py_strip t)
                         (concat (map lines_of (groups_of untimed_body)))))
           = ''[!text]'' @ ''a'' @ newline @ ''b''"
    by code_simp
  from ttml_to_lrc_mode [of untimed_ttml example_parser untimed_doc untimed_body, OF 1 2 3] 4
  have "ttml_to_lrc example_parser untimed_ttml =
      Inr (''[!text]'' @ py_join newline
                   (filter (\<lambda>t. t \<noteq> [])
                      (map (\<lambda>line. if spans_of line \<noteq> [] then py_strip (concat (itertext line))
                                   else case el_text line of None \<Rightarrow> [] | Some t \<Rightarrow> py_strip t)
                         (concat (map lines_of (groups_of untimed_body))))))"
    by (simp only: if_True)
  then show ?thesis unfolding 5 .
qed

text \<open>
  C5. Every element lookup of \<open>ttml_to_lrc\<close> is a lookup with fallback: the result of the
  function is the one computed from the body, the groups, the lines and the spans that
  the namespace-qualified selector finds, or, where that selector finds nothing, from
  those that the unqualified selector finds. This holds in both modes.
\<close>

theorem ttml_to_lrc_lookups:
  "ttml_to_lrc fromstring ttml =
     (if ttml = [] then Inr []
      else case fromstring ttml of
        None \<Rightarrow> Inl ParseError
      | Some root \<Rightarrow>
         (case first_match
                 (fallback (findall_descendants (tt ''body'')) (findall_children ''body'') root) of
            None \<Rightarrow> Inr []
          | Some body \<Rightarrow>
             (let groups = fallback (findall_descendants (tt ''div'')) (findall_children ''div'') body;
                  lines = fallback (findall_descendants (tt ''p'')) (findall_children ''p'');
                  spans = fallback (findall_descendants (tt ''span'')) (findall_children ''span'');
                  text = (\<lambda>line. if spans line \<noteq> [] then py_strip (concat (itertext line))
                                  else case el_text line of None \<Rightarrow> [] | Some t \<Rightarrow> py_strip t)
              in if py_in timing_none ttml
                 then Inr (''[!text]'' @ py_join newline
                        (filter (\<lambda>t. t \<noteq> []) (map text (concat (map lines groups)))))
                 else render_items []
                        (concat (map (\<lambda>dv.
                           (case section_label dv of None \<Rightarrow> [] | Some label \<Rightarrow> [Mark label])
                           @ map (\<lambda>line. Line (el_get line ''begin'') (el_get line ''end'') (text line))
                               (lines dv)) groups)))))"
proof (cases "ttml = []")
  case True
  then show ?thesis by (simp add: ttml_to_lrc_def)
next
  case False
  show ?thesis
  proof (cases "fromstring ttml")
    case None
    with False show ?thesis by (simp add: ttml_to_lrc_def)
  next
    case (Some root)
    have lt: "line_text = (\<lambda>line. if spans_of line \<noteq> [] then py_strip (concat (itertext line))
                                   else case el_text line of None \<Rightarrow> [] | Some t \<Rightarrow> py_strip t)"
      by (rule ext) (rule line_text_eq)
    have gi: "group_items = (\<lambda>dv.
          (case section_label dv of None \<Rightarrow> [] | Some label \<Rightarrow> [Mark label])
          @ map (\<lambda>line. Line (el_get line ''begin'') (el_get line ''end'') (line_text line))
              (lines_of dv))"
      by (rule ext) (simp add: group_items_def)
    have lo: "lines_of = fallback (findall_descendants (tt ''p'')) (findall_children ''p'')"
      by (rule ext) (simp add: lines_of_def)
    have so: "spans_of = fallback (findall_descendants (tt ''span'')) (findall_children ''span'')"
      by (rule ext) (simp add: spans_of_def)
    have "ttml_to_lrc fromstring ttml =
           (case body_of root of
              None \<Rightarrow> Inr []
            | Some body \<Rightarrow>
                if py_in timing_none ttml then Inr (untimed_lrc body) else timed_lrc body)"
      using False Some by (rule ttml_to_lrc_parsed)
    then show ?thesis
      using False Some
      unfolding untimed_lrc_eq timed_lrc_eq gi lt body_of_def groups_of_def lo so Let_def
      by simp
  qed
qed

text \<open>
  C7. In timed mode every line that the lookup finds gives one entry of \<open>lrc_body\<close>,
  whatever its text; none is dropped. In the rendered result a line whose text strips to
  the empty string is \<open>[begin]\<close> followed by a newline.
\<close>

theorem timed_lines_all_emitted:
  assumes "ttml \<noteq> []" and "fromstring ttml = Some root" and "body_of root = Some body"
      and "\<not> py_in timing_none ttml"
      and "\<forall>dv\<in>set (groups_of body). \<forall>l\<in>set (lines_of dv).
             to_standard_time_of (el_get l ''begin'') = Inr (ts l)"
  shows "filter is_line (foldl timed_div [] (groups_of body)) =
           map (\<lambda>line. Line (el_get line ''begin'') (el_get line ''end'') (line_text line))
             (concat (map lines_of (groups_of body)))
       \<and> ttml_to_lrc fromstring ttml =
           Inr (concat (map (\<lambda>dv.
                  (case section_label dv of None \<Rightarrow> [] | Some label \<Rightarrow> ''['' @ label @ '']'' @ newline)
                  @ concat (map (\<lambda>l. if line_text l = [] then ''['' @ ts l @ '']'' @ newline
                                      else ''['' @ ts l @ '']'' @ line_text l @ newline)
                      (lines_of dv)))
                (groups_of body)))"
proof -
  have e: "(\<lambda>l. if line_text l = [] then ''['' @ ts l @ '']'' @ newline
                 else ''['' @ ts l @ '']'' @ line_text l @ newline)
           = (\<lambda>l. ''['' @ ts l @ '']'' @ line_text l @ newline)"
    by (rule ext) simp
  have "ttml_to_lrc fromstring ttml = timed_lrc body"
    using assms(1-4) by (rule timed_branch_taken)
  then show ?thesis
    unfolding e using timed_lrc_groups [OF assms(5)]
    by (simp add: foldl_timed_div filter_lines_groups)
qed

theorem timed_lines_all_emitted_witness:
  "length (filter is_line (foldl timed_div [] (groups_of blank_body))) = 2
   \<and> ttml_to_lrc example_parser blank_ttml =
       Inr (''[00:01.000]'' @ newline @ ''[00:02.000]hello'' @ newline)"
proof -
  let ?ts = "\<lambda>l. case to_standard_time_of (el_get l ''begin'') of Inr t \<Rightarrow> t | Inl e \<Rightarrow> []"
  have 1: "blank_ttml \<noteq> []" by code_simp
  have 2: "example_parser blank_ttml = Some blank_doc" by code_simp
  have 3: "body_of blank_doc = Some blank_body" by code_simp
  have 4: "\<not> py_in timing_none blank_ttml" by code_simp
  have 5: "\<forall>dv\<in>set (groups_of blank_body). \<forall>l\<in>set (lines_of dv).
             to_standard_time_of (el_get l ''begin'') = Inr (?ts l)"
    by code_simp
  have 6: "length (map (\<lambda>line. Line (el_get line ''begin'') (el_get line ''end'') (line_text line))
             (concat (map lines_of (groups_of blank_body)))) = 2"
    by code_simp
  have 7: "concat (map (\<lambda>dv.
                  (case section_label dv of None \<Rightarrow> [] | Some label \<Rightarrow> ''['' @ label @ '']'' @ newline)
                  @ concat (map (\<lambda>l. if line_text l = [] then ''['' @ ?ts l @ '']'' @ newline
                                      else ''['' @ ?ts l @ '']'' @ line_text l @ newline)
                      (lines_of dv)))
                (groups_of blank_body))
           = ''[00:01.000]'' @ newline @ ''[00:02.000]hello'' @ newline"
    by code_simp
  from timed_lines_all_emitted [of blank_ttml example_parser blank_doc blank_body ?ts, OF 1 2 3 4 5]
  show ?thesis unfolding 7 using 6 by simp
qed

lemma untimed_lrc_not_Nil: "untimed_lrc body \<noteq> []"
  by (simp add: untimed_lrc_eq)

lemma timed_lrc_empty:
  "timed_lrc body = Inr [] \<longleftrightarrow>
     (\<forall>dv\<in>set (groups_of body). section_label dv = None \<and> lines_of dv = [])"
  by (simp add: timed_lrc_eq render_items_empty group_items_Nil)

text \<open>
  C8, as amended. A non-empty input that the parser rejects ends in the parser's
  \<open>ParseError\<close>, with no result. The empty input is not parsed and gives the empty string.
  The empty string is the result exactly for the empty input, for a document without a
  body, and for a timed document none of whose groups has a section label or a line.
\<close>

theorem ttml_to_lrc_malformed:
  "(ttml \<noteq> [] \<and> fromstring ttml = None \<longrightarrow> ttml_to_lrc fromstring ttml = Inl ParseError)
   \<and> ttml_to_lrc fromstring [] = Inr []
   \<and> (ttml_to_lrc fromstring ttml = Inr [] \<longleftrightarrow>
        ttml = []
        \<or> (\<exists>root. fromstring ttml = Some root
              \<and> (body_of root = None
                  \<or> (\<exists>body. body_of root = Some body \<and> \<not> py_in timing_none ttml
                        \<and> (\<forall>dv\<in>set (groups_of body).
                              section_label dv = None \<and> lines_of dv = [])))))"
proof (intro conjI)
  show "ttml \<noteq> [] \<and> fromstring ttml = None \<longrightarrow> ttml_to_lrc fromstring ttml = Inl ParseError"
    by (simp add: ttml_to_lrc_def)
  show "ttml_to_lrc fromstring [] = Inr []"
    by (simp add: ttml_to_lrc_def)
  show "ttml_to_lrc fromstring ttml = Inr [] \<longleftrightarrow>
        ttml = []
        \<or> (\<exists>root. fromstring ttml = Some root
              \<and> (body_of root = None
                  \<or> (\<exists>body. body_of root = Some body \<and> \<not> py_in timing_none ttml
                        \<and> (\<forall>dv\<in>set (groups_of body).
                              section_label dv = None \<and> lines_of dv = []))))"
  proof (cases "ttml = []")
    case True
    then show ?thesis by (simp add: ttml_to_lrc_def)
  next
    case ne: False
    show ?thesis
    proof (cases "fromstring ttml")
      case None
      with ne show ?thesis by (simp add: ttml_to_lrc_def)
    next
      case (Some root)
      note p = ttml_to_lrc_parsed [of ttml fromstring root, OF ne Some]
      show ?thesis
      proof (cases "body_of root")
        case None
        with p ne Some show ?thesis by simp
      next
        case (Some body)
        with p ne \<open>fromstring ttml = Some root\<close> show ?thesis
          by (simp add: untimed_lrc_not_Nil timed_lrc_empty)
      qed
    qed
  qed
qed

theorem ttml_to_lrc_malformed_witness:
  "''<tt>'' \<noteq> [] \<and> example_parser ''<tt>'' = None
   \<and> ttml_to_lrc example_parser ''<tt>'' = Inl ParseError"
proof -
  have 1: "''<tt>'' \<noteq> [] \<and> example_parser ''<tt>'' = None" by code_simp
  with ttml_to_lrc_malformed [of "''<tt>''" example_parser] show ?thesis by blast
qed

text \<open>
  C8 as stated fails: the empty string, which the parser rejects, is answered with the
  empty string and not with an exception.
\<close>

theorem ttml_to_lrc_empty_counterexample:
  "example_parser [] = None \<and> ttml_to_lrc example_parser [] = Inr []"
  by code_simp

text \<open>
  C10. In timed mode (the document parses, a body is found, the marker is absent), a line
  without \<open>begin\<close> makes \<open>ttml_to_lrc\<close> raise, so that no transcript is returned; the
  exception is the \<open>TypeError\<close> of \<open>re.sub\<close> on \<open>None\<close> when the \<open>begin\<close> values that are
  present all normalise. Hence, when a transcript is returned, every line carried a
  \<open>begin\<close> attribute.
\<close>

theorem timed_line_without_begin:
  assumes "ttml \<noteq> []" and "fromstring ttml = Some root" and "body_of root = Some body"
      and "\<not> py_in timing_none ttml"
  shows "(\<forall>dv\<in>set (groups_of body). \<forall>line\<in>set (lines_of dv).
            el_get line ''begin'' = None \<longrightarrow> (\<exists>err. ttml_to_lrc fromstring ttml = Inl err))
       \<and> ((\<exists>dv\<in>set (groups_of body). \<exists>line\<in>set (lines_of dv). el_get line ''begin'' = None)
          \<and> (\<forall>dv\<in>set (groups_of body). \<forall>line\<in>set (lines_of dv). \<forall>b.
                el_get line ''begin'' = Some b \<longrightarrow> (\<exists>t. to_standard_time b = Inr t))
          \<longrightarrow> ttml_to_lrc fromstring ttml = Inl TypeError)
       \<and> ((\<exists>out. ttml_to_lrc fromstring ttml = Inr out)
          \<longrightarrow> (\<forall>dv\<in>set (groups_of body). \<forall>line\<in>set (lines_of dv).
                 el_get line ''begin'' \<noteq> None))"
proof -
  let ?items = "concat (map group_items (groups_of body))"
  have res: "ttml_to_lrc fromstring ttml = render_items [] ?items"
    using timed_branch_taken [of ttml fromstring root body, OF assms]
    by (simp add: timed_lrc_eq)
  have mem: "Line (el_get line ''begin'') (el_get line ''end'') (line_text line) \<in> set ?items"
    if "dv \<in> set (groups_of body)" "line \<in> set (lines_of dv)" for dv line
  proof -
    have "Line (el_get line ''begin'') (el_get line ''end'') (line_text line) \<in> set (group_items dv)"
      using that(2) by (auto simp: group_items_def)
    with that(1) show ?thesis by auto
  qed
  have fails: "\<exists>err. ttml_to_lrc fromstring ttml = Inl err"
    if "dv \<in> set (groups_of body)" "line \<in> set (lines_of dv)" "el_get line ''begin'' = None"
    for dv line
  proof -
    have "to_standard_time_of (el_get line ''begin'') = Inl TypeError"
      using that(3) by (simp add: to_standard_time_of_def)
    with mem [OF that(1,2)] show ?thesis
      unfolding res by (rule render_items_fails)
  qed
  have a: "\<forall>dv\<in>set (groups_of body). \<forall>line\<in>set (lines_of dv).
            el_get line ''begin'' = None \<longrightarrow> (\<exists>err. ttml_to_lrc fromstring ttml = Inl err)"
    using fails by blast
  have b: "ttml_to_lrc fromstring ttml = Inl TypeError"
    if ex: "\<exists>dv\<in>set (groups_of body). \<exists>line\<in>set (lines_of dv). el_get line ''begin'' = None"
    and ok: "\<forall>dv\<in>set (groups_of body). \<forall>line\<in>set (lines_of dv). \<forall>b.
                el_get line ''begin'' = Some b \<longrightarrow> (\<exists>t. to_standard_time b = Inr t)"
  proof -
    from ex fails obtain err where err: "render_items [] ?items = Inl err"
      unfolding res by blast
    then obtain b e t where it: "Line b e t \<in> set ?items" and tb: "to_standard_time_of b = Inl err"
      using render_items_Inl by blast
    from it obtain dv where dv: "dv \<in> set (groups_of body)" and "Line b e t \<in> set (group_items dv)"
      by auto
    then obtain line where line: "line \<in> set (lines_of dv)" and bl: "b = el_get line ''begin''"
      by (cases "section_label dv") (auto simp: group_items_def)
    have "err = TypeError"
    proof (cases b)
      case None
      with tb show ?thesis by (simp add: to_standard_time_of_def)
    next
      case (Some s)
      with ok dv line bl obtain t' where "to_standard_time s = Inr t'" by metis
      with Some tb show ?thesis by (simp add: to_standard_time_of_def)
    qed
    with err show ?thesis unfolding res by simp
  qed
  have c: "\<forall>dv\<in>set (groups_of body). \<forall>line\<in>set (lines_of dv). el_get line ''begin'' \<noteq> None"
    if "\<exists>out. ttml_to_lrc fromstring ttml = Inr out"
  proof (intro ballI notI)
    fix dv line
    assume "dv \<in> set (groups_of body)" "line \<in> set (lines_of dv)" "el_get line ''begin'' = None"
    then have "\<exists>err. ttml_to_lrc fromstring ttml = Inl err" by (rule fails)
    with that show False by auto
  qed
  from a b c show ?thesis by blast
qed

theorem timed_line_without_begin_witness:
  "ttml_to_lrc example_parser no_begin_ttml = Inl TypeError
   \<and> list_all (\<lambda>line. el_get line ''begin'' \<noteq> None)
         (concat (map lines_of (groups_of verse_body)))"
proof -
  have 1: "no_begin_ttml \<noteq> []" by code_simp
  have 2: "example_parser no_begin_ttml = Some no_begin_doc" by code_simp
  have 3: "body_of no_begin_doc = Some no_begin_body" by code_simp
  have 4: "\<not> py_in timing_none no_begin_ttml" by code_simp
  have 5: "\<exists>dv\<in>set (groups_of no_begin_body). \<exists>line\<in>set (lines_of dv).
             el_get line ''begin'' = None"
    by code_simp
  have 6: "\<forall>dv\<in>set (groups_of no_begin_body). \<forall>line\<in>set (lines_of dv). \<forall>b.
             el_get line ''begin'' = Some b \<longrightarrow> (\<exists>t. to_standard_time b = Inr t)"
    by (simp add: groups_of_def lines_of_def fallback_def findall_descendants_def
          findall_children_def no_begin_body_def el_get_def tt_def tt_ns_def)
  have n: "ttml_to_lrc example_parser no_begin_ttml = Inl TypeError"
    using timed_line_without_begin
      [of no_begin_ttml example_parser no_begin_doc no_begin_body, OF 1 2 3 4] 5 6 by blast
  have v1: "verse_ttml \<noteq> []" by code_simp
  have v2: "example_parser verse_ttml = Some verse_doc" by code_simp
  have v3: "body_of verse_doc = Some verse_body" by code_simp
  have v4: "\<not> py_in timing_none verse_ttml" by code_simp
  have v5: "\<exists>out. ttml_to_lrc example_parser verse_ttml = Inr out"
  proof -
    have "ttml_to_lrc example_parser verse_ttml =
        Inr (''[Verse]'' @ newline @ ''[00:01.000]hello'' @ newline)" by code_simp
    then show ?thesis by blast
  qed
  have v: "\<forall>dv\<in>set (groups_of verse_body). \<forall>line\<in>set (lines_of dv). el_get line ''begin'' \<noteq> None"
    using timed_line_without_begin
      [of verse_ttml example_parser verse_doc verse_body, OF v1 v2 v3 v4] v5 by blast
  from v have "list_all (\<lambda>line. el_get line ''begin'' \<noteq> None)
         (concat (map lines_of (groups_of verse_body)))"
    by (auto simp: list_all_iff)
  with n show ?thesis by blast
qed

end
